theory Spec2Isabelle
  imports Main "HOL-Library.Sublist"
begin

section \<open>Python values used by the search assistant\<close>

text \<open>
  Strings are lists of characters. Exceptions are values of \<open>py_error\<close>; a function of
  the source that can raise returns \<open>py_error + 'a\<close>, with \<open>Inl\<close> for the exception.
\<close>

datatype py_error =
    ValueError string
  | KeyError string
  | IndexError
  | TypeError
  | AttributeError string
  | UnboundLocalError string
  | ExternalError string

text \<open>Sequencing of two steps that may raise: the first exception wins.\<close>

definition and_then :: "py_error + 'a \<Rightarrow> ('a \<Rightarrow> py_error + 'b) \<Rightarrow> py_error + 'b" where
  "and_then r f = (case r of Inl e \<Rightarrow> Inl e | Inr v \<Rightarrow> f v)"

text \<open>\<open>str(n)\<close> for a non-negative integer: its decimal digits, no leading zero.\<close>

definition digit_char :: "nat \<Rightarrow> char" where
  "digit_char d = ''0123456789'' ! d"

fun str_nat :: "nat \<Rightarrow> string" where
  "str_nat n = (if n < 10 then [digit_char n] else str_nat (n div 10) @ [digit_char (n mod 10)])"

declare str_nat.simps [simp del]

text \<open>
  \<open>int(s)\<close> for a string of ASCII decimal digits (leading zeros allowed).
  \<open>int_of_digits\<close> is the number that the digits write. CPython 3.11 and later refuse
  to convert a string of more than \<open>sys.int_max_str_digits\<close> digits, 4300 unless
  configured otherwise, and raise \<open>ValueError\<close>; leading zeros count as digits.
\<close>

definition is_digit :: "char \<Rightarrow> bool" where
  "is_digit c = (c \<in> set ''0123456789'')"

definition digit_val :: "char \<Rightarrow> nat" where
  "digit_val c = (case map_of (zip ''0123456789'' [0, 1, 2, 3, 4, 5, 6, 7, 8, 9]) c of
        Some d \<Rightarrow> d
      | None \<Rightarrow> 0)"

definition int_of_digits :: "string \<Rightarrow> nat" where
  "int_of_digits ds = foldl (\<lambda>a c. 10 * a + digit_val c) 0 ds"

definition int_max_str_digits :: nat where
  "int_max_str_digits = 4300"

definition py_int :: "string \<Rightarrow> py_error + nat" where
  "py_int ds =
     (if length ds > int_max_str_digits
      then Inl (ValueError (''Exceeds the limit (4300 digits) for integer string conversion: value has ''
                 @ str_nat (length ds)
                 @ '' digits; use sys.set_int_max_str_digits() to increase the limit''))
      else Inr (int_of_digits ds))"

text \<open>Lower-casing of one ASCII character, as case-insensitive matching compares them.\<close>

definition to_lower :: "char \<Rightarrow> char" where
  "to_lower c =
     (case map_of (zip ''ABCDEFGHIJKLMNOPQRSTUVWXYZ'' ''abcdefghijklmnopqrstuvwxyz'') c of
        Some l \<Rightarrow> l
      | None \<Rightarrow> c)"

text \<open>
  Subscription \<open>xs[i]\<close> of a list: positions \<open>0 .. len - 1\<close> are read directly,
  positions \<open>-len .. -1\<close> are read from the end, every other position raises.
\<close>

definition py_index :: "'a list \<Rightarrow> int \<Rightarrow> py_error + 'a" where
  "py_index xs i =
     (if 0 \<le> i \<and> i < int (length xs) then Inr (xs ! nat i)
      else if - int (length xs) \<le> i \<and> i < 0 then Inr (xs ! nat (int (length xs) + i))
      else Inl IndexError)"

text \<open>\<open>s.endswith(suffixes)\<close> with a tuple of suffixes.\<close>

definition endswith :: "string \<Rightarrow> string list \<Rightarrow> bool" where
  "endswith s sufs = list_ex (\<lambda>suf. suffix suf s) sufs"

text \<open>\<open>x in s\<close> for strings is the substring test \<^const>\<open>sublist\<close>.\<close>

section \<open>Turning citation markers into links\<close>

text \<open>
  \<open>replace_reference\<close>, the local function of \<open>parse_serp_analysis_output\<close>, applied to
  group 1 of a match. The number is read with \<open>int\<close> first. \<open>render_reference\<close> is the rest
  of the function: the bound check is \<open>ref_num <= len(links)\<close> only, and
  \<open>links[ref_num - 1]\<close> is Python indexing.
\<close>

definition render_reference :: "string list \<Rightarrow> nat \<Rightarrow> py_error + string" where
  "render_reference links ref_num =
     (if ref_num \<le> length links
      then and_then (py_index links (int ref_num - 1))
             (\<lambda>l. Inr (''[<sup>'' @ str_nat ref_num @ ''</sup>]('' @ l @ '')''))
      else Inr (''[<sup>'' @ str_nat ref_num @ ''</sup>](#)''))"

definition replace_reference :: "string list \<Rightarrow> string \<Rightarrow> py_error + string" where
  "replace_reference links group1 = and_then (py_int group1) (render_reference links)"

text \<open>
  The pattern \<^verbatim>\<open>\[reference: ?(\d+)\]|\[Reference: ?(\d+)\]\<close> with \<open>re.IGNORECASE\<close>,
  matched at the start of a string. Under \<open>IGNORECASE\<close> both alternatives accept the same
  strings, so the first one always matches and group 1 holds the digits. The optional
  space and the greedy \<^verbatim>\<open>\d+\<close> never succeed by backtracking: a space is no digit, and
  after fewer digits the next character is a digit, not \<^verbatim>\<open>]\<close>. The matcher returns
  group 1 and the text after the match. Characters are ASCII: \<^verbatim>\<open>\d\<close> is one of 0-9.
\<close>

fun strip_ci :: "string \<Rightarrow> string \<Rightarrow> string option" where
  "strip_ci [] s = Some s"
| "strip_ci (p # ps) [] = None"
| "strip_ci (p # ps) (c # cs) = (if to_lower c = p then strip_ci ps cs else None)"

definition opt_space :: "string \<Rightarrow> string" where
  "opt_space s = (case s of [] \<Rightarrow> [] | d # r \<Rightarrow> if d = CHR '' '' then r else s)"

definition match_marker :: "string \<Rightarrow> (string \<times> string) option" where
  "match_marker s =
     (case s of
        [] \<Rightarrow> None
      | c # s1 \<Rightarrow>
          if c \<noteq> CHR ''['' then None
          else (case strip_ci ''reference:'' s1 of
                  None \<Rightarrow> None
                | Some s2 \<Rightarrow>
                    let s3 = opt_space s2;
                        ds = takeWhile is_digit s3;
                        s4 = dropWhile is_digit s3
                    in if ds = [] then None
                       else (case s4 of
                               [] \<Rightarrow> None
                             | e # rest \<Rightarrow> if e = CHR '']'' then Some (ds, rest) else None)))"

lemma strip_ci_length: "strip_ci p s = Some r \<Longrightarrow> length r \<le> length s"
  by (induction p s rule: strip_ci.induct) (auto split: if_splits)

lemma match_marker_shorter:
  assumes "match_marker s = Some (ds, rest)"
  shows "length rest < length s"
proof -
  from assms obtain c s1 s2 where s: "s = c # s1" and s2: "strip_ci ''reference:'' s1 = Some s2"
    by (auto simp: match_marker_def split: list.splits if_splits option.splits)
  define s3 where "s3 = opt_space s2"
  have l3: "length s3 \<le> length s2"
    by (auto simp: s3_def opt_space_def split: list.splits)
  from assms s s2 obtain e where "dropWhile is_digit s3 = e # rest"
    by (auto simp: match_marker_def s3_def Let_def split: list.splits if_splits)
  then have "length rest < length (dropWhile is_digit s3)" by simp
  also have "\<dots> \<le> length s3" by (rule length_dropWhile_le)
  also note l3
  also from s2 have "length s2 \<le> length s1" by (rule strip_ci_length)
  finally show ?thesis using s by simp
qed

text \<open>
  \<open>pattern.sub\<close>: the text is scanned from the left; at a match the replacement is
  computed (it may raise) and scanning goes on after the match; elsewhere the character
  is kept.
\<close>

function sub_markers :: "string list \<Rightarrow> string \<Rightarrow> py_error + string" where
  "sub_markers links [] = Inr []"
| "sub_markers links (c # cs) =
     (case match_marker (c # cs) of
        None \<Rightarrow> and_then (sub_markers links cs) (\<lambda>out. Inr (c # out))
      | Some (ds, rest) \<Rightarrow>
          and_then (replace_reference links ds)
            (\<lambda>r. and_then (sub_markers links rest) (\<lambda>out. Inr (r @ out))))"
  by pat_completeness auto
termination
  by (relation "measure (\<lambda>(links, s). length s)") (auto dest: match_marker_shorter)

definition parse_serp_analysis_output :: "string \<Rightarrow> string list \<Rightarrow> py_error + string" where
  "parse_serp_analysis_output answer links = sub_markers links answer"

text \<open>
  The strings the pattern accepts, written out: \<open>[\<close>, the word \<open>reference:\<close> in any
  mix of cases, at most one space, one or more digits \<open>ds\<close>, and \<open>]\<close>.
\<close>

definition is_marker :: "string \<Rightarrow> string \<Rightarrow> bool" where
  "is_marker m ds \<longleftrightarrow>
     (\<exists>w sp. m = CHR ''['' # w @ sp @ ds @ '']'' \<and> map to_lower w = ''reference:'' \<and>
        (sp = [] \<or> sp = '' '') \<and> ds \<noteq> [] \<and> list_all is_digit ds)"

definition contains_marker :: "string \<Rightarrow> bool" where
  "contains_marker t \<longleftrightarrow> (\<exists>pre m ds post. t = pre @ m @ post \<and> is_marker m ds)"

text \<open>
  What the scan of \<open>pattern.sub\<close> finds, in order: group 1 of every match, and the
  numbers that these groups write.
\<close>

function marker_groups :: "string \<Rightarrow> string list" where
  "marker_groups [] = []"
| "marker_groups (c # cs) =
     (case match_marker (c # cs) of
        None \<Rightarrow> marker_groups cs
      | Some (ds, rest) \<Rightarrow> ds # marker_groups rest)"
  by pat_completeness auto
termination
  by (relation "measure length") (auto dest: match_marker_shorter)

function marker_numbers :: "string \<Rightarrow> nat list" where
  "marker_numbers [] = []"
| "marker_numbers (c # cs) =
     (case match_marker (c # cs) of
        None \<Rightarrow> marker_numbers cs
      | Some (ds, rest) \<Rightarrow> int_of_digits ds # marker_numbers rest)"
  by pat_completeness auto
termination
  by (relation "measure length") (auto dest: match_marker_shorter)

section \<open>External collaborators\<close>

text \<open>
  The search API, the language model, the prompt template, \<open>urlparse\<close>, the page loaders,
  the HTML cleaner, the text splitter, the file system and the iteration order of a
  Python \<open>set\<close> are not part of the repository. They are the fields of an environment
  that every function of the assistant takes as its first argument. A collaborator that
  can raise returns \<open>py_error + 'a\<close>.
\<close>

record search_result =
  title :: "string option"
  snippet :: "string option"
  link :: "string option"

record response =
  organic_results :: "search_result list option"

record serp_params =
  q :: string
  num :: int
  engine :: string

record parsed_url =
  netloc :: string
  path :: string

record document =
  page_content :: string
  metadata :: "string \<rightharpoonup> string"

text \<open>Requests that leave the process, in the order they are sent.\<close>

datatype net_call = Search serp_params | Llm string

record env =
  search_api :: "serp_params \<Rightarrow> py_error + response"
  llm_invoke :: "string \<Rightarrow> py_error + string"
  serp_prompt :: "string \<Rightarrow> string \<Rightarrow> string"
  urlparse :: "string \<Rightarrow> py_error + parsed_url"
  html_loader :: "string \<Rightarrow> py_error + document list"
  pdf_loader :: "string \<Rightarrow> py_error + document list"
  html2text :: "document list \<Rightarrow> py_error + document list"
  text_splitter :: "nat \<Rightarrow> nat \<Rightarrow> py_error + (document list \<Rightarrow> py_error + document list)"
  path_exists :: "string \<Rightarrow> bool"
  iter_set :: "string set \<Rightarrow> string list"

text \<open>
  \<open>serp_prompt question context\<close> is the formatted SERP analysis prompt;
  \<open>text_splitter chunk_size chunk_overlap\<close> is the constructor call
  \<open>RecursiveCharacterTextSplitter(chunk_size=..., chunk_overlap=..., length_function=len)\<close>,
  which can raise, and its result is the \<open>split_documents\<close> method of the new splitter;
  \<open>iter_set S\<close> is the order in which Python iterates the set \<open>S\<close>, which is a legitimate
  order when it lists every element of \<open>S\<close> exactly once:
\<close>

definition iterates :: "env \<Rightarrow> string set \<Rightarrow> bool" where
  "iterates ev S \<longleftrightarrow> set (iter_set ev S) = S \<and> distinct (iter_set ev S)"

text \<open>
  The test \<open>key in chunk\<close> on a \<open>Document\<close>. The class is a pydantic model and has no
  \<open>__contains__\<close> method, so Python iterates the object and compares every item with
  the key. Iterating a pydantic model yields one pair \<open>(name, value)\<close> for each field, and
  a pair is never equal to a string: the test is false for every key, also for the name
  of a field.
\<close>

datatype py_item = Str_item string | Pair_item string

definition iter_document :: "document \<Rightarrow> py_item list" where
  "iter_document d = [Pair_item ''page_content'', Pair_item ''metadata'', Pair_item ''type'']"

definition in_document :: "string \<Rightarrow> document \<Rightarrow> bool" where
  "in_document key d = (Str_item key \<in> set (iter_document d))"

section \<open>Searching\<close>

definition OFFICIAL_SITES :: "string list" where
  "OFFICIAL_SITES =
    [''support.microsoft.com'',
     ''support.apple.com'',
     ''support.lenovo.com'',
     ''support.hp.com'',
     ''dell.com/support'',
     ''acer.com/support'',
     ''asus.com/support'',
     ''support.intel.com'',
     ''nvidia.com/support'',
     ''techspot.com'',
     ''tomshardware.com'',
     ''bleepingcomputer.com'',
     ''majorgeeks.com'',
     ''howtogeek.com'',
     ''digitaltrends.com'',
     ''techrepublic.com'',
     ''pcmag.com'',
     ''computerworld.com'',
     ''makeuseof.com'',
     ''lifewire.com'',
     ''superuser.com'',
     ''stackoverflow.com'',
     ''askubuntu.com'',
     ''tenforums.com'',
     ''windowsreport.com'',
     ''sevenforums.com'',
     ''linux.org'',
     ''reddit.com/r/techsupport'',
     ''techradar.com'',
     ''theverge.com'',
     ''techcommunity.microsoft.com'',
     ''recoverit.wondershare.com'']"

text \<open>\<open>sep.join(xs)\<close>.\<close>

fun str_join :: "string \<Rightarrow> string list \<Rightarrow> string" where
  "str_join sep [] = []"
| "str_join sep [x] = x"
| "str_join sep (x # y # ys) = x @ sep @ str_join sep (y # ys)"

definition restrict_to_official_sites :: "string \<Rightarrow> string list \<Rightarrow> string" where
  "restrict_to_official_sites query official_sites =
     query @ '' ('' @ str_join '' OR '' (map (\<lambda>site. ''site:'' @ site) official_sites) @ '')''"

text \<open>\<open>d.get(key, '')\<close> on a search result.\<close>

definition get_or_empty :: "string option \<Rightarrow> string" where
  "get_or_empty v = (case v of None \<Rightarrow> [] | Some s \<Rightarrow> s)"

text \<open>\<open>[r['link'] for r in results]\<close>: a result without the key raises \<open>KeyError\<close>.\<close>

fun result_links :: "search_result list \<Rightarrow> py_error + string list" where
  "result_links [] = Inr []"
| "result_links (r # rs) =
     (case link r of
        None \<Rightarrow> Inl (KeyError ''link'')
      | Some l \<Rightarrow> and_then (result_links rs) (\<lambda>ls. Inr (l # ls)))"

text \<open>The loop \<open>for i, result in enumerate(results): context.append(...)\<close>, from index \<open>i\<close>.\<close>

fun context_entries :: "nat \<Rightarrow> search_result list \<Rightarrow> string list" where
  "context_entries i [] = []"
| "context_entries i (r # rs) =
     (''[reference:'' @ str_nat (i + 1) @ ''] '' @ get_or_empty (title r) @ '': '' @
        get_or_empty (snippet r))
     # context_entries (Suc i) rs"

definition blank_line :: string where
  "blank_line = [CHR 0x0A, CHR 0x0A]"

text \<open>
  The \<open>try\<close> block of \<open>querySerpapi\<close>, given the outcome of the search call: any exception
  inside it, the missing \<open>link\<close> key included, ends in the \<open>except\<close> branch.
  \<open>results_of\<close> is \<open>response.get('organic_results', [])\<close>.
\<close>

definition results_of :: "response \<Rightarrow> search_result list" where
  "results_of resp = (case organic_results resp of None \<Rightarrow> [] | Some rs \<Rightarrow> rs)"

definition search_context :: "py_error + response \<Rightarrow> string \<times> string list" where
  "search_context outcome =
     (case outcome of
        Inl e \<Rightarrow> (''Answer not found'', [])
      | Inr resp \<Rightarrow>
          let results = results_of resp
          in if length results > 0
             then (case result_links results of
                     Inl e \<Rightarrow> (''Answer not found'', [])
                   | Inr links \<Rightarrow> (str_join blank_line (context_entries 0 results), links))
             else (''Answer not found'', []))"

text \<open>
  \<open>querySerpapi\<close> returns the requests it has sent together with its result. The engine
  is checked before the search object is built. With \<open>do_analysis\<close> the context goes to
  the language model and the answer is linkified; neither call is inside the \<open>try\<close>.
\<close>

definition querySerpapi ::
  "env \<Rightarrow> string \<Rightarrow> int \<Rightarrow> bool \<Rightarrow> string \<Rightarrow> net_call list \<times> (py_error + string \<times> string list)"
where
  "querySerpapi ev query limit do_analysis eng =
     (let restricted_query = restrict_to_official_sites query OFFICIAL_SITES
      in if eng \<notin> set [''google'', ''bing'']
         then ([], Inl (ValueError ''engine must be either google or bing''))
         else
           let params = \<lparr>q = restricted_query, num = limit, engine = eng\<rparr>;
               (context, links) = search_context (search_api ev params)
           in if do_analysis
              then ([Search params, Llm (serp_prompt ev query context)],
                    and_then (llm_invoke ev (serp_prompt ev query context)) (\<lambda>answer.
                      and_then (parse_serp_analysis_output answer links) (\<lambda>parsed.
                        Inr (parsed, links))))
              else ([Search params], Inr (context, links)))"

section \<open>The assistant\<close>

text \<open>
  The operations sent to the vector database, with the chunks and the directory arguments
  they are given. \<open>update_vdb\<close> is called with one directory by
  \<open>create_load_vector_store\<close> and with two by \<open>create_and_save_local\<close>.
\<close>

datatype vdb_call =
    Load_vdb string
  | Update_vdb "document list" "string option list"
  | Create_vector_store "document list" "string option"

text \<open>
  The fields of \<open>SearchAssistant\<close> that the functions below read or write: the two
  entries of \<open>self.config\<close> that are used, the web crawling and retrieval parameters,
  \<open>self.documents\<close> and \<open>self.urls\<close> (\<open>None\<close> until a crawl has run), the operations sent
  to the vector database so far (\<open>self.vector_store\<close> is the handle returned by the last
  one) and whether \<open>self.qa_chain\<close> has been set.
\<close>

record assistant =
  config_persist_directory :: "string option"
  config_update :: "bool option"
  excluded_links_param :: "string list"
  max_scraped_websites :: nat
  extra_loaders :: "string list"
  retrieval_chunk_size :: nat
  retrieval_chunk_overlap :: nat
  documents :: "document list option"
  urls :: "string list option"
  vdb_calls :: "vdb_call list"
  qa_chain_set :: bool

section \<open>Filtering links and crawling\<close>

text \<open>The first loop of \<open>link_filter\<close>: \<open>netloc + path\<close> of every excluded link, as a set.\<close>

fun clean_excluded :: "env \<Rightarrow> string list \<Rightarrow> py_error + string set" where
  "clean_excluded ev [] = Inr {}"
| "clean_excluded ev (excluded_link # rest) =
     and_then (urlparse ev excluded_link) (\<lambda>parsed_link.
       and_then (clean_excluded ev rest) (\<lambda>clean.
         Inr (insert (netloc parsed_link @ path parsed_link) clean)))"

definition link_filter :: "env \<Rightarrow> string list \<Rightarrow> string list \<Rightarrow> py_error + string set" where
  "link_filter ev all_links excluded_links =
     and_then (clean_excluded ev excluded_links) (\<lambda>clean_excluded_links.
       Inr {l \<in> set all_links. \<not> (\<exists>excluded_link \<in> clean_excluded_links. sublist excluded_link l)})"

fun load_htmls :: "env \<Rightarrow> string list \<Rightarrow> string list \<Rightarrow> py_error + document list" where
  "load_htmls ev [] loaders = Inr []"
| "load_htmls ev (url # rest) loaders =
     (if suffix ''.pdf'' url
      then (if ''pdf'' \<in> set loaders
            then and_then (pdf_loader ev url) (\<lambda>docs.
                   and_then (load_htmls ev rest loaders) (\<lambda>more. Inr (docs @ more)))
            else load_htmls ev rest loaders)
      else and_then (html_loader ev url) (\<lambda>docs.
             and_then (load_htmls ev rest loaders) (\<lambda>more. Inr (docs @ more))))"

definition excluded_link_suffixes :: "string list" where
  "excluded_link_suffixes =
     [''.ico'', ''.svg'', ''.jpg'', ''.png'', ''.jpeg'', ''.'', ''.docx'', ''.xls'', ''.xlsx'']"

definition no_sites_message :: string where
  "no_sites_message =
     ''not sites to scrape after filtering links, check the excluded_links config or increase Max number of results to retrieve''"

text \<open>
  \<open>web_crawl\<close> returns the assistant with \<open>documents\<close> and \<open>urls\<close> set. The set of links
  left by the filter is tested with \<open>len(urls) == 0\<close>, which raises.
\<close>

definition web_crawl ::
  "env \<Rightarrow> assistant \<Rightarrow> string list \<Rightarrow> string list option \<Rightarrow> py_error + assistant"
where
  "web_crawl ev self urls_arg excluded_links_arg =
     (let excluded_links =
            (case excluded_links_arg of None \<Rightarrow> [] | Some xs \<Rightarrow> xs) @ excluded_links_param self;
          kept = filter (\<lambda>url. \<not> endswith url excluded_link_suffixes) urls_arg
      in and_then (link_filter ev kept (iter_set ev (set excluded_links))) (\<lambda>filtered.
           if filtered = {}
           then Inl (ValueError no_sites_message)
           else
             let scraped = take (max_scraped_websites self) (iter_set ev filtered)
             in and_then (load_htmls ev scraped (extra_loaders self)) (\<lambda>scraped_docs.
                  and_then (html2text ev scraped_docs) (\<lambda>docs.
                    Inr (self\<lparr>documents := Some docs, urls := Some scraped\<rparr>)))))"

section \<open>Chunks with references\<close>

text \<open>
  The dictionary \<open>{site: i + 1 for i, site in enumerate(urls)}\<close>, built from index \<open>i\<close>:
  a later position of the same site replaces an earlier one.
\<close>

fun number_sources :: "nat \<Rightarrow> string list \<Rightarrow> (string \<rightharpoonup> nat) \<Rightarrow> (string \<rightharpoonup> nat)" where
  "number_sources i [] m = m"
| "number_sources i (site # rest) m = number_sources (Suc i) rest (m(site \<mapsto> i + 1))"

definition two_newlines :: string where
  "two_newlines = [CHR 0x0A, CHR 0x0A]"

definition unknown_reference :: "document \<Rightarrow> document" where
  "unknown_reference chunk =
     chunk\<lparr>page_content := ''[reference:unknown] '' @ page_content chunk @ two_newlines\<rparr>"

text \<open>The body of the loop over the chunks.\<close>

definition add_reference :: "(string \<rightharpoonup> nat) \<Rightarrow> document \<Rightarrow> document" where
  "add_reference sources chunk =
     (if in_document ''metadata'' chunk \<and> metadata chunk ''source'' \<noteq> None
      then (case sources (the (metadata chunk ''source'')) of
              Some n \<Rightarrow>
                chunk\<lparr>page_content :=
                  ''[reference:'' @ str_nat n @ ''] '' @ page_content chunk @ two_newlines\<rparr>
            | None \<Rightarrow> unknown_reference chunk)
      else unknown_reference chunk)"

text \<open>
  The splitter is constructed first, then the dictionary of the sources is built, where
  \<open>enumerate(self.urls)\<close> raises \<open>TypeError\<close> while \<open>self.urls\<close> is \<open>None\<close>, then the
  documents are split, where \<open>docs\<close> being \<open>None\<close> raises \<open>TypeError\<close> as well.
\<close>

definition get_text_chunks_with_references ::
  "env \<Rightarrow> assistant \<Rightarrow> document list option \<Rightarrow> nat \<Rightarrow> nat \<Rightarrow> py_error + document list"
where
  "get_text_chunks_with_references ev self docs chunk_size chunk_overlap =
     and_then (text_splitter ev chunk_size chunk_overlap) (\<lambda>split_documents.
       case urls self of
         None \<Rightarrow> Inl TypeError
       | Some us \<Rightarrow>
           let sources = number_sources 0 us Map.empty
           in and_then (case docs of None \<Rightarrow> Inl TypeError | Some ds \<Rightarrow> split_documents ds)
                (\<lambda>chunks. Inr (map (add_reference sources) chunks)))"

section \<open>The vector store\<close>

text \<open>
  The call \<open>get_text_chunks_with_references(self.documents, self.retrieval_info[...], ...)\<close>
  of the two functions below.
\<close>

definition chunks_with_references :: "env \<Rightarrow> assistant \<Rightarrow> py_error + document list" where
  "chunks_with_references ev self =
     get_text_chunks_with_references ev self (documents self)
       (retrieval_chunk_size self) (retrieval_chunk_overlap self)"

definition persist_directory_of :: "assistant \<Rightarrow> string" where
  "persist_directory_of self =
     (case config_persist_directory self of None \<Rightarrow> ''NoneDirectory'' | Some d \<Rightarrow> d)"

definition create_load_vector_store ::
  "env \<Rightarrow> assistant \<Rightarrow> bool \<Rightarrow> bool \<Rightarrow> py_error + assistant"
where
  "create_load_vector_store ev self force_reload update =
     (let persist_directory = persist_directory_of self
      in if path_exists ev persist_directory \<and> \<not> force_reload \<and> \<not> update
         then Inr (self\<lparr>vdb_calls := vdb_calls self @ [Load_vdb persist_directory]\<rparr>)
         else if path_exists ev persist_directory \<and> update
         then and_then (chunks_with_references ev self) (\<lambda>chunks.
                Inr (self\<lparr>vdb_calls := vdb_calls self @
                       [Load_vdb persist_directory,
                        Update_vdb chunks [Some persist_directory]]\<rparr>))
         else and_then (chunks_with_references ev self) (\<lambda>chunks.
                Inr (self\<lparr>vdb_calls := vdb_calls self @
                       [Create_vector_store chunks (Some persist_directory)]\<rparr>)))"

text \<open>\<open>persist_directory or self.config.get(...)\<close>: \<open>None\<close> and the empty string are false.\<close>

definition persist_directory_or :: "string option \<Rightarrow> assistant \<Rightarrow> string" where
  "persist_directory_or persist_directory_arg self =
     (case persist_directory_arg of
        None \<Rightarrow> persist_directory_of self
      | Some d \<Rightarrow> if d = [] then persist_directory_of self else d)"

definition create_and_save_local ::
  "env \<Rightarrow> assistant \<Rightarrow> string option \<Rightarrow> string option \<Rightarrow> bool \<Rightarrow> py_error + assistant"
where
  "create_and_save_local ev self input_directory persist_directory_arg update =
     (let persist_directory = persist_directory_or persist_directory_arg self
      in and_then (chunks_with_references ev self) (\<lambda>chunks.
           if update \<and> path_exists ev persist_directory
           then Inr (self\<lparr>config_update := Some True,
                        vdb_calls := vdb_calls self @
                          [Update_vdb chunks [input_directory, Some persist_directory]]\<rparr>)
           else if path_exists ev persist_directory
           then Inr (self\<lparr>vdb_calls := vdb_calls self @
                          [Create_vector_store chunks (Some persist_directory)]\<rparr>)
           else Inr (self\<lparr>vdb_calls := vdb_calls self @
                          [Create_vector_store chunks None]\<rparr>)))"

section \<open>Search and scrape\<close>

text \<open>
  \<open>search_and_scrape\<close> returns the assistant and the value returned to the caller:
  \<open>None\<close>, or the dictionary with the message. The class defines neither \<open>querySerper\<close>
  nor \<open>queryOpenSerp\<close>; with any other search method \<open>links\<close> is not bound.
\<close>

definition search_links ::
  "env \<Rightarrow> string \<Rightarrow> string \<Rightarrow> int \<Rightarrow> string \<Rightarrow> py_error + string list"
where
  "search_links ev search_method query max_results search_engine =
     (if search_method = ''serpapi''
      then and_then (snd (querySerpapi ev query max_results False search_engine))
             (\<lambda>(context, links). Inr links)
      else if search_method = ''serper'' then Inl (AttributeError ''querySerper'')
      else if search_method = ''openserp'' then Inl (AttributeError ''queryOpenSerp'')
      else Inl (UnboundLocalError ''links''))"

definition search_and_scrape ::
  "env \<Rightarrow> assistant \<Rightarrow> string \<Rightarrow> string \<Rightarrow> int \<Rightarrow> string \<Rightarrow>
     py_error + assistant \<times> string option"
where
  "search_and_scrape ev self query search_method max_results search_engine =
     and_then (search_links ev search_method query max_results search_engine) (\<lambda>links.
       if length links > 0
       then and_then (web_crawl ev self links None) (\<lambda>crawled.
              and_then (create_and_save_local ev crawled None None False) (\<lambda>saved.
                Inr (saved\<lparr>qa_chain_set := True\<rparr>, None)))
       else Inr (self, Some (''No links found for '' @ [CHR 0x27] @ query @ [CHR 0x27] @ ''. Try again'')))"

section \<open>Renumbering the citations of a retrieval answer\<close>

text \<open>\<open>s.replace(old, new)\<close>: every occurrence of \<open>old\<close>, from the left, without overlap.\<close>

function str_replace :: "string \<Rightarrow> string \<Rightarrow> string \<Rightarrow> string" where
  "str_replace old new s =
     (if old = [] then new @ concat (map (\<lambda>c. c # new) s)
      else (case s of
              [] \<Rightarrow> []
            | c # cs \<Rightarrow>
                if prefix old s then new @ str_replace old new (drop (length old) s)
                else c # str_replace old new cs))"
  by pat_completeness auto
termination
  by (relation "measure (\<lambda>(old, new, s). length s)") (auto simp: neq_Nil_conv)

declare str_replace.simps [simp del]

text \<open>\<open>doc.metadata["source"]\<close> for every source document.\<close>

fun doc_sources :: "document list \<Rightarrow> py_error + string list" where
  "doc_sources [] = Inr []"
| "doc_sources (doc # rest) =
     (case metadata doc ''source'' of
        None \<Rightarrow> Inl (KeyError ''source'')
      | Some s \<Rightarrow> and_then (doc_sources rest) (\<lambda>more. Inr (s # more)))"

definition rendered_citation :: "nat \<Rightarrow> string \<Rightarrow> string" where
  "rendered_citation n url = ''[<sup>'' @ str_nat n @ ''</sup>]('' @ url @ '')''"

text \<open>
  The loop \<open>for i, link in enumerate(self.urls)\<close>, from index \<open>i\<close>: the arguments of
  \<open>replace\<close> are evaluated whenever the link occurs in the answer, and
  \<open>question_sources_map[link]\<close> raises \<open>KeyError\<close> for a link that is not in the map.
\<close>

fun remap_citations :: "(string \<rightharpoonup> nat) \<Rightarrow> nat \<Rightarrow> string list \<Rightarrow> string \<Rightarrow> py_error + string" where
  "remap_citations question_sources_map i [] parsed_answer = Inr parsed_answer"
| "remap_citations question_sources_map i (l # rest) parsed_answer =
     (if sublist l parsed_answer
      then (case question_sources_map l of
              None \<Rightarrow> Inl (KeyError l)
            | Some n \<Rightarrow>
                remap_citations question_sources_map (Suc i) rest
                  (str_replace (rendered_citation (i + 1) l) (rendered_citation n l) parsed_answer))
      else remap_citations question_sources_map (Suc i) rest parsed_answer)"

text \<open>
  While \<open>self.urls\<close> is \<open>None\<close>, linkifying raises at the first marker (\<open>int\<close> of its
  digits, then \<open>len(None)\<close>) and the loop raises at \<open>enumerate(None)\<close>.
\<close>

definition parse_retrieval_output ::
  "env \<Rightarrow> assistant \<Rightarrow> string \<Rightarrow> document list \<Rightarrow> py_error + string"
where
  "parse_retrieval_output ev self answer source_documents =
     and_then
       (case urls self of
          Some us \<Rightarrow> parse_serp_analysis_output answer us
        | None \<Rightarrow>
            (case marker_groups answer of
               [] \<Rightarrow> Inr answer
             | group1 # _ \<Rightarrow> and_then (py_int group1) (\<lambda>ref_num. Inl TypeError)))
       (\<lambda>parsed_answer.
          and_then (doc_sources source_documents) (\<lambda>sources.
            let question_sources = iter_set ev (set sources);
                question_sources_map = number_sources 0 question_sources Map.empty
            in (case urls self of
                  None \<Rightarrow> Inl TypeError
                | Some us \<Rightarrow> remap_citations question_sources_map 0 us parsed_answer)))"

section \<open>Sample collaborators\<close>

text \<open>Simple collaborators, used to run the functions on concrete inputs.\<close>

definition failing_search :: "serp_params \<Rightarrow> py_error + response" where
  "failing_search p = Inl (ExternalError ''connection refused'')"

definition fixed_search :: "search_result list \<Rightarrow> serp_params \<Rightarrow> py_error + response" where
  "fixed_search rs p = Inr \<lparr>organic_results = Some rs\<rparr>"

definition fixed_llm :: "string \<Rightarrow> string \<Rightarrow> py_error + string" where
  "fixed_llm answer prompt = Inr answer"

definition plain_prompt :: "string \<Rightarrow> string \<Rightarrow> string" where
  "plain_prompt question context = question @ '' | '' @ context"

text \<open>\<open>urlparse\<close> given by a table; a string without scheme is all path.\<close>

definition table_urlparse :: "(string \<times> parsed_url) list \<Rightarrow> string \<Rightarrow> py_error + parsed_url" where
  "table_urlparse tbl u =
     (case map_of tbl u of Some p \<Rightarrow> Inr p | None \<Rightarrow> Inr \<lparr>netloc = [], path = u\<rparr>)"

text \<open>A loader that returns one document per URL, with the URL as its source.\<close>

definition page_loader :: "string \<Rightarrow> py_error + document list" where
  "page_loader url = Inr [\<lparr>page_content = ''page'', metadata = [''source'' \<mapsto> url]\<rparr>]"

definition keep_documents :: "document list \<Rightarrow> py_error + document list" where
  "keep_documents docs = Inr docs"

text \<open>
  A splitter that refuses an overlap larger than the chunk size, as the constructor of
  \<open>RecursiveCharacterTextSplitter\<close> does, and then keeps every document whole.
\<close>

definition whole_documents ::
  "nat \<Rightarrow> nat \<Rightarrow> py_error + (document list \<Rightarrow> py_error + document list)"
where
  "whole_documents chunk_size chunk_overlap =
     (if chunk_overlap > chunk_size
      then Inl (ValueError (''Got a larger chunk overlap ('' @ str_nat chunk_overlap
                 @ '') than chunk size ('' @ str_nat chunk_size @ ''), should be smaller.''))
      else Inr keep_documents)"

definition existing_paths :: "string list \<Rightarrow> string \<Rightarrow> bool" where
  "existing_paths ps p = (p \<in> set ps)"

text \<open>Iteration of a set in the order of a given list of all candidate elements.\<close>

definition listed_order :: "string list \<Rightarrow> string set \<Rightarrow> string list" where
  "listed_order universe S = filter (\<lambda>x. x \<in> S) universe"

definition sample_env :: "string list \<Rightarrow> env" where
  "sample_env universe =
     \<lparr>search_api = failing_search,
      llm_invoke = fixed_llm ''No answer'',
      serp_prompt = plain_prompt,
      urlparse = table_urlparse [],
      html_loader = page_loader,
      pdf_loader = page_loader,
      html2text = keep_documents,
      text_splitter = whole_documents,
      path_exists = existing_paths [],
      iter_set = listed_order universe\<rparr>"

definition three_results :: "search_result list" where
  "three_results =
     [\<lparr>title = Some ''T1'', snippet = Some ''S1'', link = Some ''L1''\<rparr>,
      \<lparr>title = None, snippet = Some ''S2'', link = Some ''L2''\<rparr>,
      \<lparr>title = Some ''T3'', snippet = None, link = Some ''L3''\<rparr>]"

definition marker_title_result :: search_result where
  "marker_title_result =
     \<lparr>title = Some ''see [reference:7]'', snippet = Some ''S'', link = Some ''L''\<rparr>"

definition solved_results :: "search_result list" where
  "solved_results =
     [\<lparr>title = Some ''[SOLVED] wifi'', snippet = Some ''S1'', link = Some ''L1''\<rparr>,
      \<lparr>title = None, snippet = Some ''S2'', link = Some ''L2''\<rparr>,
      \<lparr>title = Some ''T3'', snippet = None, link = Some ''L3''\<rparr>]"

definition zero_citing_env :: env where
  "zero_citing_env = (sample_env [])\<lparr>llm_invoke := fixed_llm ''see [reference:0]''\<rparr>"

definition tracker_env :: env where
  "tracker_env =
     (sample_env [])\<lparr>urlparse := table_urlparse
        [(''https://ads.example.com/track?id=1'',
          \<lparr>netloc = ''ads.example.com'', path = ''/track''\<rparr>)]\<rparr>"

definition sample_assistant :: assistant where
  "sample_assistant =
     \<lparr>config_persist_directory = None,
      config_update = None,
      excluded_links_param = [],
      max_scraped_websites = 20,
      extra_loaders = [],
      retrieval_chunk_size = 1200,
      retrieval_chunk_overlap = 240,
      documents = None,
      urls = None,
      vdb_calls = [],
      qa_chain_set = False\<rparr>"

definition logo_result :: search_result where
  "logo_result =
     \<lparr>title = Some ''Logo'', snippet = Some ''An image'',
      link = Some ''https://cdn.example.com/logo.png''\<rparr>"

definition logo_env :: env where
  "logo_env = (sample_env [])\<lparr>search_api := fixed_search [logo_result]\<rparr>"

definition crawled_assistant :: assistant where
  "crawled_assistant =
     sample_assistant
       \<lparr>documents := Some [\<lparr>page_content = ''page'', metadata = [''source'' \<mapsto> ''https://a.example'']\<rparr>],
        urls := Some [''https://a.example'']\<rparr>"

definition tagged_page :: document where
  "tagged_page =
     \<lparr>page_content = ''[reference:unknown] page'' @ two_newlines,
      metadata = [''source'' \<mapsto> ''https://a.example'']\<rparr>"

definition two_site_assistant :: assistant where
  "two_site_assistant = sample_assistant\<lparr>urls := Some [''https://a.example'', ''https://b.example'']\<rparr>"

definition three_documents :: "document list" where
  "three_documents =
     [\<lparr>page_content = ''B'', metadata = [''source'' \<mapsto> ''https://b.example'']\<rparr>,
      \<lparr>page_content = ''N'', metadata = Map.empty\<rparr>,
      \<lparr>page_content = ''C'', metadata = [''source'' \<mapsto> ''https://c.example'']\<rparr>]"

definition abc_urls :: "string list" where
  "abc_urls = [''https://a.example'', ''https://b.example'', ''https://c.example'']"

definition abc_assistant :: assistant where
  "abc_assistant = sample_assistant\<lparr>urls := Some abc_urls\<rparr>"

definition retrieved_b_c :: "document list" where
  "retrieved_b_c =
     [\<lparr>page_content = ''chunk of b'', metadata = [''source'' \<mapsto> ''https://b.example'']\<rparr>,
      \<lparr>page_content = ''chunk of c'', metadata = [''source'' \<mapsto> ''https://c.example'']\<rparr>,
      \<lparr>page_content = ''more of b'', metadata = [''source'' \<mapsto> ''https://b.example'']\<rparr>]"

definition bc_env :: env where
  "bc_env = sample_env [''https://b.example'', ''https://c.example'']"

definition cb_env :: env where
  "cb_env = sample_env [''https://c.example'', ''https://b.example'']"

definition prefix_urls_assistant :: assistant where
  "prefix_urls_assistant =
     sample_assistant\<lparr>urls := Some [''https://x.example/a'', ''https://x.example/ab'']\<rparr>"

definition retrieved_ab :: "document list" where
  "retrieved_ab = [\<lparr>page_content = ''p'', metadata = [''source'' \<mapsto> ''https://x.example/ab'']\<rparr>]"

definition ab_env :: env where
  "ab_env = sample_env [''https://x.example/ab'']"

section \<open>Properties of the marker pattern\<close>

lemma is_markerI:
  "m = CHR ''['' # w @ sp @ ds @ '']'' \<Longrightarrow> map to_lower w = ''reference:'' \<Longrightarrow>
   sp = [] \<or> sp = '' '' \<Longrightarrow> ds \<noteq> [] \<Longrightarrow> list_all is_digit ds \<Longrightarrow> is_marker m ds"
  unfolding is_marker_def by (intro exI [of _ w] exI [of _ sp] conjI)

lemma is_markerE:
  assumes "is_marker m ds"
  obtains w sp where "m = CHR ''['' # w @ sp @ ds @ '']''" "map to_lower w = ''reference:''"
    "sp = [] \<or> sp = '' ''" "ds \<noteq> []" "list_all is_digit ds"
  using assms unfolding is_marker_def by (elim exE conjE)

lemma strip_ci_append: "map to_lower w = p \<Longrightarrow> strip_ci p (w @ r) = Some r"
  by (induction p arbitrary: w) auto

lemma strip_ci_split: "strip_ci p s = Some r \<Longrightarrow> \<exists>w. s = w @ r \<and> map to_lower w = p"
proof (induction p s rule: strip_ci.induct)
  case (1 s)
  then have "s = [] @ r \<and> map to_lower [] = []" by simp
  then show ?case by (rule exI)
next
  case (2 p ps)
  then show ?case by simp
next
  case (3 p ps c cs)
  have eq: "to_lower c = p"
    using "3.prems" by (cases "to_lower c = p") simp_all
  then have rec: "strip_ci ps cs = Some r"
    using "3.prems" by simp
  from "3.IH" [OF eq rec] obtain w where w: "cs = w @ r" "map to_lower w = ps"
    by (elim exE conjE)
  have "c # cs = (c # w) @ r \<and> map to_lower (c # w) = p # ps"
    using w eq by simp
  then show ?case by (rule exI)
qed

lemma not_digit_bracket: "\<not> is_digit CHR '']''" "\<not> is_digit CHR ''[''" "\<not> is_digit CHR '' ''"
  by (simp_all add: is_digit_def)

lemma match_marker_complete:
  assumes "is_marker m ds"
  shows "match_marker (m @ post) = Some (ds, post)"
proof -
  from assms obtain w sp where m: "m = CHR ''['' # w @ sp @ ds @ '']''"
    and w: "map to_lower w = ''reference:''" and sp: "sp = [] \<or> sp = '' ''"
    and ds: "ds \<noteq> []" "list_all is_digit ds"
    by (rule is_markerE)
  have strip: "strip_ci ''reference:'' (w @ sp @ ds @ '']'' @ post) = Some (sp @ ds @ '']'' @ post)"
    using w by (rule strip_ci_append)
  from ds obtain d ds' where dd: "ds = d # ds'" by (cases ds) auto
  with ds have d: "is_digit d" by simp
  then have dsp: "d \<noteq> CHR '' ''" using not_digit_bracket by auto
  have s3: "opt_space (sp @ ds @ '']'' @ post) = ds @ '']'' @ post"
    using sp dsp by (auto simp: dd opt_space_def)
  have tw: "takeWhile is_digit (ds @ '']'' @ post) = ds"
    using ds(2) not_digit_bracket by (simp add: takeWhile_append2 list_all_iff)
  have dw: "dropWhile is_digit (ds @ '']'' @ post) = '']'' @ post"
    using ds(2) not_digit_bracket by (simp add: dropWhile_append2 list_all_iff)
  show ?thesis
    unfolding match_marker_def m using strip s3 tw dw ds(1) by (simp add: Let_def)
qed

lemma match_marker_sound:
  assumes "match_marker s = Some (ds, rest)"
  shows "\<exists>m. is_marker m ds \<and> s = m @ rest"
proof -
  from assms obtain s1 s2 where s: "s = CHR ''['' # s1" and s2: "strip_ci ''reference:'' s1 = Some s2"
    by (auto simp: match_marker_def split: list.splits if_splits option.splits)
  define s3 where "s3 = opt_space s2"
  from assms s s2 have ds: "ds = takeWhile is_digit s3" "ds \<noteq> []"
    and dw: "dropWhile is_digit s3 = CHR '']'' # rest"
    by (auto simp: match_marker_def s3_def Let_def split: list.splits if_splits)
  have s3: "s3 = ds @ '']'' @ rest"
    using takeWhile_dropWhile_id [of is_digit s3] ds(1) dw by simp
  have "\<exists>sp. (sp = [] \<or> sp = '' '') \<and> s2 = sp @ s3"
  proof (cases s2)
    case Nil
    then show ?thesis by (simp add: s3_def opt_space_def)
  next
    case (Cons d r)
    show ?thesis
    proof (cases "d = CHR '' ''")
      case True
      with Cons have "('' '' = [] \<or> '' '' = '' '') \<and> s2 = '' '' @ s3" by (simp add: s3_def opt_space_def)
      then show ?thesis by (rule exI)
    next
      case False
      with Cons have "([] = [] \<or> [] = '' '') \<and> s2 = [] @ s3" by (simp add: s3_def opt_space_def)
      then show ?thesis by (rule exI)
    qed
  qed
  then obtain sp where sp: "sp = [] \<or> sp = '' ''" "s2 = sp @ s3" by (elim exE conjE)
  from strip_ci_split [OF s2] obtain w where w: "s1 = w @ s2" "map to_lower w = ''reference:''"
    by (elim exE conjE)
  have digs: "list_all is_digit ds"
    unfolding ds(1) list_all_iff by (auto dest: set_takeWhileD)
  have "is_marker (CHR ''['' # w @ sp @ ds @ '']'') ds"
    using refl w(2) sp(1) ds(2) digs by (rule is_markerI)
  moreover have "s = (CHR ''['' # w @ sp @ ds @ '']'') @ rest"
    using s w(1) sp(2) s3 by simp
  ultimately have "is_marker (CHR ''['' # w @ sp @ ds @ '']'') ds \<and> s = (CHR ''['' # w @ sp @ ds @ '']'') @ rest"
    by (rule conjI)
  then show ?thesis by (rule exI)
qed

lemma is_marker_bracket:
  assumes "is_marker m ds"
  shows "\<exists>t. m = CHR ''['' # t \<and> CHR ''['' \<notin> set t"
proof -
  from assms obtain w sp where m: "m = CHR ''['' # w @ sp @ ds @ '']''"
    and w: "map to_lower w = ''reference:''" and sp: "sp = [] \<or> sp = '' ''"
    and ds: "ds \<noteq> []" "list_all is_digit ds"
    by (rule is_markerE)
  have "CHR ''['' \<notin> set w"
  proof
    assume "CHR ''['' \<in> set w"
    then have "to_lower CHR ''['' \<in> to_lower ` set w" by (rule imageI)
    then have "to_lower CHR ''['' \<in> set (map to_lower w)" by simp
    then show False unfolding w by (simp add: to_lower_def)
  qed
  moreover have "CHR ''['' \<notin> set ds"
    using ds(2) not_digit_bracket by (auto simp: list_all_iff)
  moreover have "CHR ''['' \<notin> set sp" using sp by auto
  ultimately have "m = CHR ''['' # (w @ sp @ ds @ '']'') \<and> CHR ''['' \<notin> set (w @ sp @ ds @ '']'')"
    using m by simp
  then show ?thesis by (rule exI)
qed


lemma match_marker_extend:
  assumes "match_marker s = Some (ds, rest)"
  shows "match_marker (s @ t) = Some (ds, rest @ t)"
proof -
  from match_marker_sound [OF assms] obtain m where m: "is_marker m ds" "s = m @ rest"
    by (elim exE conjE)
  from match_marker_complete [OF m(1), of "rest @ t"] show ?thesis
    using m(2) by simp
qed

lemma append_eq_prefix:
  assumes "xs @ ys = zs @ ts" and "length zs \<le> length xs"
  shows "xs = zs @ drop (length zs) xs"
proof -
  from assms(1) have "take (length zs) (xs @ ys) = take (length zs) (zs @ ts)" by simp
  with assms(2) have "take (length zs) xs = zs" by simp
  with append_take_drop_id [of "length zs" xs] show ?thesis by simp
qed

lemma match_marker_None_extend:
  assumes none: "match_marker (c # cs) = None" and mk: "is_marker m ds"
  shows "match_marker (c # cs @ m @ post) = None"
proof (rule ccontr)
  assume "match_marker (c # cs @ m @ post) \<noteq> None"
  then obtain ds' rest' where some: "match_marker (c # cs @ m @ post) = Some (ds', rest')"
    by (cases "match_marker (c # cs @ m @ post)") auto
  from match_marker_sound [OF some] obtain m' where m': "is_marker m' ds'"
    and eq: "c # cs @ m @ post = m' @ rest'"
    by (elim exE conjE)
  from is_marker_bracket [OF m'] obtain t' where t': "m' = CHR ''['' # t'" "CHR ''['' \<notin> set t'"
    by (elim exE conjE)
  from is_marker_bracket [OF mk] obtain t where t: "m = CHR ''['' # t"
    by (elim exE conjE)
  show False
  proof (cases "length m' \<le> length (c # cs)")
    case True
    from eq have "(c # cs) @ (m @ post) = m' @ rest'" by simp
    from append_eq_prefix [OF this True]
    have "c # cs = m' @ drop (length m') (c # cs)" .
    with match_marker_complete [OF m', of "drop (length m') (c # cs)"] none
    show False by simp
  next
    case False
    define k where "k = length (c # cs)"
    from False have k: "k < length m'" "0 < k" by (simp_all add: k_def)
    from eq have "((c # cs) @ m @ post) ! k = (m' @ rest') ! k" by simp
    then have "m' ! k = CHR ''[''"
      using k(1) by (simp add: nth_append t k_def)
    with t'(1) k have "t' ! (k - 1) = CHR ''[''" "k - 1 < length t'"
      by (cases k; simp)+
    then have "CHR ''['' \<in> set t'" by (metis nth_mem)
    with t'(2) show False by simp
  qed
qed

lemma sub_markers_at_marker:
  assumes "is_marker m ds"
  shows "sub_markers links (pre @ m @ post) =
         and_then (sub_markers links pre) (\<lambda>a.
           and_then (replace_reference links ds) (\<lambda>r.
             and_then (sub_markers links post) (\<lambda>b. Inr (a @ r @ b))))"
proof (induction links pre rule: sub_markers.induct)
  case (1 links)
  from is_marker_bracket [OF assms] obtain t where t: "m = CHR ''['' # t"
    by (elim exE conjE)
  from match_marker_complete [OF assms, of post]
  have "match_marker (CHR ''['' # t @ post) = Some (ds, post)" by (simp add: t)
  then show ?case by (simp add: t and_then_def split: sum.splits)
next
  case (2 links c cs)
  show ?case
  proof (cases "match_marker (c # cs)")
    case None
    then have ext: "match_marker (c # cs @ m @ post) = None"
      using assms by (rule match_marker_None_extend)
    from "2.IH"(1) [OF None] None ext show ?thesis
      by (simp add: and_then_def split: sum.splits)
  next
    case (Some p)
    obtain ds' rest' where p: "p = (ds', rest')" by (cases p)
    from Some p have some: "match_marker (c # cs) = Some (ds', rest')" by simp
    from match_marker_extend [OF some, of "m @ post"]
    have ext: "match_marker (c # cs @ m @ post) = Some (ds', rest' @ m @ post)" by simp
    show ?thesis
    proof (cases "replace_reference links ds'")
      case (Inl e)
      with some ext show ?thesis by (simp add: and_then_def)
    next
      case (Inr r')
      from "2.IH"(2) [OF some refl]
      have "sub_markers links (rest' @ m @ post) =
            and_then (sub_markers links rest') (\<lambda>a.
              and_then (replace_reference links ds) (\<lambda>r.
                and_then (sub_markers links post) (\<lambda>b. Inr (a @ r @ b))))"
        by simp
      with some ext Inr show ?thesis
        by (simp add: and_then_def split: sum.splits)
    qed
  qed
qed

lemma contains_marker_bracket: "contains_marker t \<Longrightarrow> CHR ''['' \<in> set t"
proof -
  assume "contains_marker t"
  then obtain pre m ds post where t: "t = pre @ m @ post" and m: "is_marker m ds"
    unfolding contains_marker_def by (elim exE conjE)
  from is_marker_bracket [OF m] obtain u where "m = CHR ''['' # u" by (elim exE conjE)
  with t show ?thesis by simp
qed

lemma contains_markerI: "is_marker m ds \<Longrightarrow> contains_marker (pre @ m @ post)"
  unfolding contains_marker_def by (intro exI [of _ pre] exI [of _ m] exI [of _ ds] exI [of _ post] conjI refl)

lemma contains_marker_Cons: "contains_marker cs \<Longrightarrow> contains_marker (c # cs)"
proof -
  assume "contains_marker cs"
  then obtain pre m ds post where t: "cs = pre @ m @ post" and m: "is_marker m ds"
    unfolding contains_marker_def by (elim exE conjE)
  from contains_markerI [OF m, of "c # pre" post] t show ?thesis by simp
qed

lemma sub_markers_no_marker: "\<not> contains_marker t \<Longrightarrow> sub_markers links t = Inr t"
proof (induction t)
  case Nil
  show ?case by simp
next
  case (Cons c cs)
  have none: "match_marker (c # cs) = None"
  proof (rule ccontr)
    assume "match_marker (c # cs) \<noteq> None"
    then obtain ds rest where "match_marker (c # cs) = Some (ds, rest)"
      by (cases "match_marker (c # cs)") auto
    from match_marker_sound [OF this] obtain m where "is_marker m ds" "c # cs = m @ rest"
      by (elim exE conjE)
    with contains_markerI [of m ds "[]" rest] Cons.prems show False by simp
  qed
  from Cons.prems have "\<not> contains_marker cs" by (auto dest: contains_marker_Cons)
  with Cons.IH none show ?case by (simp add: and_then_def)
qed

lemma py_int_within_limit: "length ds \<le> 4300 \<Longrightarrow> py_int ds = Inr (int_of_digits ds)"
  by (simp add: py_int_def int_max_str_digits_def)

lemma py_int_beyond_limit:
  "4300 < length ds \<Longrightarrow>
   py_int ds = Inl (ValueError (''Exceeds the limit (4300 digits) for integer string conversion: value has ''
            @ str_nat (length ds)
            @ '' digits; use sys.set_int_max_str_digits() to increase the limit''))"
  by (simp add: py_int_def int_max_str_digits_def)

lemma render_reference_out_of_range:
  "length links < n \<Longrightarrow> render_reference links n = Inr (''[<sup>'' @ str_nat n @ ''</sup>](#)'')"
  by (simp add: render_reference_def)

lemma replace_reference_out_of_range:
  "length ds \<le> 4300 \<Longrightarrow> length links < int_of_digits ds \<Longrightarrow>
   replace_reference links ds = Inr (''[<sup>'' @ str_nat (int_of_digits ds) @ ''</sup>](#)'')"
  by (simp add: replace_reference_def py_int_within_limit and_then_def render_reference_out_of_range)

lemma replace_reference_beyond_limit:
  "4300 < length ds \<Longrightarrow>
   replace_reference links ds =
     Inl (ValueError (''Exceeds the limit (4300 digits) for integer string conversion: value has ''
            @ str_nat (length ds)
            @ '' digits; use sys.set_int_max_str_digits() to increase the limit''))"
  by (simp add: replace_reference_def py_int_beyond_limit and_then_def)

lemma py_index_last: "xs \<noteq> [] \<Longrightarrow> py_index xs (- 1) = Inr (last xs)"
proof -
  assume ne: "xs \<noteq> []"
  then have len: "Suc 0 \<le> length xs" by (cases xs) simp_all
  then have "nat (int (length xs) + - 1) = length xs - 1" by simp
  with len show ?thesis
    by (simp add: py_index_def last_conv_nth [OF ne])
qed

lemma py_index_in_range: "0 < n \<Longrightarrow> n \<le> length xs \<Longrightarrow> py_index xs (int n - 1) = Inr (xs ! (n - 1))"
  by (simp add: py_index_def nat_diff_distrib')

lemma render_reference_nonempty:
  assumes "links \<noteq> []"
  shows "\<exists>r. render_reference links n = Inr r"
proof (cases "n \<le> length links")
  case True
  have "\<exists>l. py_index links (int n - 1) = Inr l"
  proof (cases "n = 0")
    case True
    with py_index_last [OF assms] show ?thesis by simp
  next
    case False
    with py_index_in_range [of n links] \<open>n \<le> length links\<close> show ?thesis by simp
  qed
  then obtain l where "py_index links (int n - 1) = Inr l" by (elim exE)
  with True show ?thesis by (simp add: render_reference_def and_then_def)
next
  case False
  then show ?thesis by (simp add: render_reference_def)
qed

lemma replace_reference_nonempty:
  assumes "links \<noteq> []" and "length ds \<le> 4300"
  shows "\<exists>r. replace_reference links ds = Inr r"
  using render_reference_nonempty [OF assms(1), of "int_of_digits ds"] assms(2)
  by (simp add: replace_reference_def py_int_within_limit and_then_def)

lemma render_reference_zero:
  assumes "links \<noteq> []"
  shows "render_reference links 0 = Inr (''[<sup>0</sup>]('' @ last links @ '')'')"
proof -
  have "str_nat 0 = ''0''" by (simp add: str_nat.simps digit_char_def)
  with py_index_last [OF assms] show ?thesis
    by (simp add: render_reference_def and_then_def)
qed

lemma replace_reference_zero:
  assumes "links \<noteq> []"
  shows "replace_reference links ''0'' = Inr (''[<sup>0</sup>]('' @ last links @ '')'')"
proof -
  have "py_int ''0'' = Inr 0"
    by (simp add: py_int_def int_max_str_digits_def int_of_digits_def digit_val_def)
  with render_reference_zero [OF assms] show ?thesis
    by (simp add: replace_reference_def and_then_def)
qed

lemma sub_markers_returns:
  "(\<forall>g \<in> set (marker_groups t). \<exists>r. replace_reference links g = Inr r) \<Longrightarrow>
   \<exists>out. sub_markers links t = Inr out"
proof (induction links t rule: sub_markers.induct)
  case (1 links)
  show ?case by simp
next
  case (2 links c cs)
  show ?case
  proof (cases "match_marker (c # cs)")
    case None
    with "2.prems" have "\<forall>g \<in> set (marker_groups cs). \<exists>r. replace_reference links g = Inr r"
      by simp
    from "2.IH"(1) [OF None this] obtain out where "sub_markers links cs = Inr out"
      by (elim exE)
    with None show ?thesis by (simp add: and_then_def)
  next
    case (Some p)
    obtain ds rest where p: "p = (ds, rest)" by (cases p)
    from Some p have some: "match_marker (c # cs) = Some (ds, rest)" by simp
    with "2.prems" have here: "\<exists>r. replace_reference links ds = Inr r"
      and later: "\<forall>g \<in> set (marker_groups rest). \<exists>r. replace_reference links g = Inr r"
      by simp_all
    from here obtain r where r: "replace_reference links ds = Inr r"
      by (elim exE)
    from "2.IH"(2) [OF some refl later] obtain out where "sub_markers links rest = Inr out"
      by (elim exE)
    with some r show ?thesis by (simp add: and_then_def)
  qed
qed

lemma is_marker_reference_0: "is_marker ''[reference:0]'' ''0''"
  by (rule is_markerI [where w = "''reference:''" and sp = "[]"])
     (simp_all add: to_lower_def is_digit_def)

section \<open>Properties of the search step\<close>

lemma context_entries_length: "length (context_entries i R) = length R"
  by (induction R arbitrary: i) simp_all

lemma context_entries_nth:
  "k < length R \<Longrightarrow>
   context_entries i R ! k =
     ''[reference:'' @ str_nat (i + k + 1) @ ''] '' @ get_or_empty (title (R ! k)) @ '': '' @
       get_or_empty (snippet (R ! k))"
proof (induction R arbitrary: i k)
  case Nil
  then show ?case by simp
next
  case (Cons r R)
  show ?case
  proof (cases k)
    case 0
    then show ?thesis by simp
  next
    case (Suc j)
    with Cons.prems have "j < length R" by simp
    from Cons.IH [OF this, of "Suc i"] Suc show ?thesis by simp
  qed
qed

lemma result_links_length: "result_links R = Inr ls \<Longrightarrow> length ls = length R"
  by (induction R arbitrary: ls) (auto simp: and_then_def split: option.splits sum.splits)

lemma result_links_nth:
  "result_links R = Inr ls \<Longrightarrow> k < length R \<Longrightarrow> link (R ! k) = Some (ls ! k)"
proof (induction R arbitrary: ls k)
  case Nil
  then show ?case by simp
next
  case (Cons r R)
  from Cons.prems(1) obtain l ls' where l: "link r = Some l" and ls': "result_links R = Inr ls'"
    and ls: "ls = l # ls'"
    by (auto simp: and_then_def split: option.splits sum.splits)
  show ?case
  proof (cases k)
    case 0
    with l ls show ?thesis by simp
  next
    case (Suc j)
    with Cons.prems(2) have "j < length R" by simp
    from Cons.IH [OF ls' this] Suc ls show ?thesis by simp
  qed
qed

lemma search_context_failure:
  "search_context (Inl e) = (''Answer not found'', [])"
  by (simp add: search_context_def)

lemma search_context_empty:
  "results_of resp = [] \<Longrightarrow> search_context (Inr resp) = (''Answer not found'', [])"
  by (simp add: search_context_def)

lemma search_context_bad_result:
  "result_links (results_of resp) = Inl e \<Longrightarrow> search_context (Inr resp) = (''Answer not found'', [])"
  by (simp add: search_context_def Let_def)

lemma search_context_results:
  "results_of resp \<noteq> [] \<Longrightarrow> result_links (results_of resp) = Inr ls \<Longrightarrow>
   search_context (Inr resp) = (str_join blank_line (context_entries 0 (results_of resp)), ls)"
  by (simp add: search_context_def Let_def)

lemma querySerpapi_valid_engine:
  assumes "eng = ''google'' \<or> eng = ''bing''"
  shows "querySerpapi ev query limit do_analysis eng =
     (let params = \<lparr>q = restrict_to_official_sites query OFFICIAL_SITES, num = limit, engine = eng\<rparr>;
          ctx = search_context (search_api ev params)
      in if do_analysis
         then ([Search params, Llm (serp_prompt ev query (fst ctx))],
               and_then (llm_invoke ev (serp_prompt ev query (fst ctx))) (\<lambda>answer.
                 and_then (parse_serp_analysis_output answer (snd ctx)) (\<lambda>parsed.
                   Inr (parsed, snd ctx))))
         else ([Search params], Inr ctx))"
  using assms by (auto simp: querySerpapi_def Let_def split: prod.splits)

lemma querySerpapi_no_results:
  assumes "eng = ''google'' \<or> eng = ''bing''"
    and "search_context
           (search_api ev
              \<lparr>q = restrict_to_official_sites query OFFICIAL_SITES, num = limit, engine = eng\<rparr>) =
         (''Answer not found'', [])"
  shows "querySerpapi ev query limit False eng =
           ([Search \<lparr>q = restrict_to_official_sites query OFFICIAL_SITES, num = limit, engine = eng\<rparr>],
            Inr (''Answer not found'', []))"
    and "querySerpapi ev query limit True eng =
           ([Search \<lparr>q = restrict_to_official_sites query OFFICIAL_SITES, num = limit, engine = eng\<rparr>,
             Llm (serp_prompt ev query ''Answer not found'')],
            and_then (llm_invoke ev (serp_prompt ev query ''Answer not found'')) (\<lambda>answer.
              and_then (parse_serp_analysis_output answer []) (\<lambda>parsed. Inr (parsed, []))))"
  using querySerpapi_valid_engine [OF assms(1), of ev query limit False]
    querySerpapi_valid_engine [OF assms(1), of ev query limit True] assms(2)
  by (simp_all add: Let_def)

lemma sample_search_fails:
  "search_context (search_api (sample_env universe) params) = (''Answer not found'', [])"
  by (simp add: sample_env_def failing_search_def search_context_def)

lemma zero_citing_search_fails:
  "search_context (search_api zero_citing_env params) = (''Answer not found'', [])"
  by (simp add: zero_citing_env_def sample_env_def failing_search_def search_context_def)

section \<open>Properties of the link filter and the crawl\<close>

lemma clean_excluded_member:
  "clean_excluded ev xs = Inr C \<Longrightarrow>
   c \<in> C \<longleftrightarrow> (\<exists>x \<in> set xs. \<exists>p. urlparse ev x = Inr p \<and> c = netloc p @ path p)"
proof (induction xs arbitrary: C)
  case Nil
  then show ?case by simp
next
  case (Cons x xs)
  from Cons.prems obtain p C' where p: "urlparse ev x = Inr p" and C': "clean_excluded ev xs = Inr C'"
    and C: "C = insert (netloc p @ path p) C'"
    by (auto simp: and_then_def split: sum.splits)
  from Cons.IH [OF C'] p C show ?case by auto
qed

lemma link_filter_result:
  assumes "link_filter ev all_links excluded_links = Inr result"
  shows "result = {l \<in> set all_links.
           \<not> (\<exists>x \<in> set excluded_links. \<exists>p. urlparse ev x = Inr p \<and> sublist (netloc p @ path p) l)}"
proof -
  from assms obtain C where C: "clean_excluded ev excluded_links = Inr C"
    and r: "result = {l \<in> set all_links. \<not> (\<exists>c \<in> C. sublist c l)}"
    by (auto simp: link_filter_def and_then_def split: sum.splits)
  have "(\<exists>c \<in> C. sublist c l) \<longleftrightarrow>
        (\<exists>x \<in> set excluded_links. \<exists>p. urlparse ev x = Inr p \<and> sublist (netloc p @ path p) l)" for l
    by (auto simp: Bex_def clean_excluded_member [OF C])
  with r show ?thesis by simp
qed

lemma link_filter_no_excluded: "link_filter ev all_links [] = Inr (set all_links)"
  by (simp add: link_filter_def and_then_def)

lemma web_crawl_nothing_left:
  assumes "link_filter ev (filter (\<lambda>url. \<not> endswith url excluded_link_suffixes) urls_arg)
             (iter_set ev (set ((case excluded_links_arg of None \<Rightarrow> [] | Some xs \<Rightarrow> xs) @
                excluded_links_param self))) = Inr {}"
  shows "web_crawl ev self urls_arg excluded_links_arg = Inl (ValueError no_sites_message)"
  using assms by (simp add: web_crawl_def Let_def and_then_def)

lemma search_and_scrape_no_links:
  assumes "search_links ev search_method query max_results search_engine = Inr []"
  shows "search_and_scrape ev self query search_method max_results search_engine =
         Inr (self, Some (''No links found for '' @ [CHR 0x27] @ query @ [CHR 0x27] @ ''. Try again''))"
  using assms by (simp add: search_and_scrape_def and_then_def)

lemma search_and_scrape_crawl_error:
  assumes "search_links ev search_method query max_results search_engine = Inr links"
    and "links \<noteq> []" and "web_crawl ev self links None = Inl err"
  shows "search_and_scrape ev self query search_method max_results search_engine = Inl err"
  using assms by (simp add: search_and_scrape_def and_then_def)

lemma logo_filtered_out:
  "link_filter ev (filter (\<lambda>url. \<not> endswith url excluded_link_suffixes)
       [''https://cdn.example.com/logo.png''])
     (iter_set ev (set ((case None of None \<Rightarrow> [] | Some xs \<Rightarrow> xs) @
        excluded_links_param sample_assistant))) = Inr {}"
  if "iter_set ev {} = []"
  using that
  by (simp add: sample_assistant_def link_filter_def and_then_def endswith_def
      excluded_link_suffixes_def suffix_def)

lemma sample_env_iter_empty: "iter_set (sample_env []) {} = []"
  by (simp add: sample_env_def listed_order_def)

lemma logo_env_iter_empty: "iter_set logo_env {} = []"
  by (simp add: logo_env_def sample_env_def listed_order_def)

lemma logo_query:
  "snd (querySerpapi logo_env ''logo'' 5 False ''google'') =
     Inr (''[reference:1] Logo: An image'', [''https://cdn.example.com/logo.png''])"
  by (simp add: querySerpapi_valid_engine Let_def logo_env_def sample_env_def fixed_search_def
      search_context_def results_of_def logo_result_def and_then_def get_or_empty_def
      str_nat.simps digit_char_def)

lemma failed_query:
  "snd (querySerpapi (sample_env []) ''logo'' 5 False ''google'') = Inr (''Answer not found'', [])"
  by (simp add: querySerpapi_valid_engine Let_def sample_env_def failing_search_def
      search_context_def)

lemma logo_crawl_raises:
  "iter_set ev {} = [] \<Longrightarrow>
   web_crawl ev sample_assistant [''https://cdn.example.com/logo.png''] None =
     Inl (ValueError no_sites_message)"
  by (rule web_crawl_nothing_left) (rule logo_filtered_out)

section \<open>Properties of the vector store functions\<close>

lemma crawled_chunks:
  "chunks_with_references (sample_env []) crawled_assistant = Inr [tagged_page]"
  by (simp add: chunks_with_references_def crawled_assistant_def get_text_chunks_with_references_def
      sample_env_def sample_assistant_def whole_documents_def keep_documents_def and_then_def
      add_reference_def in_document_def iter_document_def unknown_reference_def tagged_page_def)

lemma sample_directory_absent:
  "\<not> path_exists (sample_env []) (persist_directory_of crawled_assistant)"
  "\<not> path_exists (sample_env []) (persist_directory_or None crawled_assistant)"
  by (simp_all add: sample_env_def existing_paths_def)

lemma create_load_absent:
  assumes "\<not> path_exists ev (persist_directory_of self)"
  shows "create_load_vector_store ev self force_reload update =
     and_then (chunks_with_references ev self) (\<lambda>chunks.
       Inr (self\<lparr>vdb_calls := vdb_calls self @
              [Create_vector_store chunks (Some (persist_directory_of self))]\<rparr>))"
  using assms by (simp add: create_load_vector_store_def Let_def)

lemma create_save_absent:
  assumes "\<not> path_exists ev (persist_directory_or persist_directory_arg self)"
  shows "create_and_save_local ev self input_directory persist_directory_arg update =
     and_then (chunks_with_references ev self) (\<lambda>chunks.
       Inr (self\<lparr>vdb_calls := vdb_calls self @ [Create_vector_store chunks None]\<rparr>))"
  using assms by (simp add: create_and_save_local_def Let_def)

section \<open>Properties of the reference numbers of chunks\<close>

lemma number_sources_other: "u \<notin> set us \<Longrightarrow> number_sources i us m u = m u"
  by (induction us arbitrary: i m) auto

lemma number_sources_last:
  "n < length us \<Longrightarrow> us ! n \<notin> set (drop (Suc n) us) \<Longrightarrow>
   number_sources i us m (us ! n) = Some (i + n + 1)"
proof (induction us arbitrary: i n m)
  case Nil
  then show ?case by simp
next
  case (Cons site rest)
  show ?case
  proof (cases n)
    case 0
    with Cons.prems have "site \<notin> set rest" by simp
    from number_sources_other [OF this] 0 show ?thesis by simp
  next
    case (Suc k)
    with Cons.prems have "k < length rest" "rest ! k \<notin> set (drop (Suc k) rest)" by simp_all
    from Cons.IH [OF this] Suc show ?thesis by simp
  qed
qed

lemma number_sources_distinct:
  assumes "distinct us" and "n < length us"
  shows "number_sources i us m (us ! n) = Some (i + n + 1)"
proof -
  from assms have "us ! n \<notin> set (drop (Suc n) us)"
    by (metis Cons_nth_drop_Suc distinct.simps(2) distinct_drop)
  with assms(2) show ?thesis by (rule number_sources_last)
qed

lemma number_sources_absent: "u \<notin> set us \<Longrightarrow> number_sources 0 us Map.empty u = None"
  by (simp add: number_sources_other)

lemma add_reference_metadata: "metadata (add_reference sources chunk) = metadata chunk"
  by (simp add: add_reference_def unknown_reference_def split: option.splits)

text \<open>The membership test on a \<open>Document\<close> is false for every key.\<close>

lemma in_document_False: "\<not> in_document key d"
  by (simp add: in_document_def iter_document_def)

text \<open>So the loop takes its last branch for every chunk, whatever its metadata.\<close>

lemma add_reference_unknown:
  "add_reference sources chunk =
     chunk\<lparr>page_content := ''[reference:unknown] '' @ page_content chunk @ [CHR 0x0A, CHR 0x0A]\<rparr>"
  by (simp add: add_reference_def in_document_False unknown_reference_def two_newlines_def)

lemma chunks_all_unknown:
  assumes "get_text_chunks_with_references ev self docs chunk_size chunk_overlap = Inr out"
  shows "\<exists>split_documents ds chunks.
           text_splitter ev chunk_size chunk_overlap = Inr split_documents \<and>
           docs = Some ds \<and> split_documents ds = Inr chunks \<and>
           out = map (\<lambda>chunk. chunk\<lparr>page_content :=
                   ''[reference:unknown] '' @ page_content chunk @ [CHR 0x0A, CHR 0x0A]\<rparr>) chunks"
proof -
  from assms obtain sp where sp: "text_splitter ev chunk_size chunk_overlap = Inr sp"
    by (cases "text_splitter ev chunk_size chunk_overlap")
       (simp_all add: get_text_chunks_with_references_def and_then_def)
  from assms sp obtain us where us: "urls self = Some us"
    by (cases "urls self") (simp_all add: get_text_chunks_with_references_def and_then_def)
  from assms sp us obtain ds where ds: "docs = Some ds"
    by (cases docs) (simp_all add: get_text_chunks_with_references_def and_then_def)
  from assms sp us ds obtain chunks where ch: "sp ds = Inr chunks"
    by (cases "sp ds") (simp_all add: get_text_chunks_with_references_def and_then_def)
  have fn: "add_reference sources = (\<lambda>chunk. chunk\<lparr>page_content :=
                   ''[reference:unknown] '' @ page_content chunk @ [CHR 0x0A, CHR 0x0A]\<rparr>)"
    for sources
    by (rule ext) (rule add_reference_unknown)
  from assms sp us ds ch
  have "out = map (add_reference (number_sources 0 us Map.empty)) chunks"
    by (simp add: get_text_chunks_with_references_def and_then_def)
  then have "out = map (\<lambda>chunk. chunk\<lparr>page_content :=
                   ''[reference:unknown] '' @ page_content chunk @ [CHR 0x0A, CHR 0x0A]\<rparr>) chunks"
    by (simp only: fn)
  with sp ds ch show ?thesis by (intro exI conjI)
qed

text \<open>The URL list that a crawl leaves has no repetition and holds given URLs only.\<close>

lemma web_crawl_urls_distinct:
  assumes "web_crawl ev self urls_arg excluded_links_arg = Inr crawled"
    and "\<And>S. finite S \<Longrightarrow> iterates ev S"
  shows "\<exists>us. urls crawled = Some us \<and> distinct us \<and> set us \<subseteq> set urls_arg"
proof -
  let ?kept = "filter (\<lambda>url. \<not> endswith url excluded_link_suffixes) urls_arg"
  from assms(1) obtain excl filtered docs where
    f: "link_filter ev ?kept excl = Inr filtered"
    and c: "crawled = self\<lparr>documents := Some docs,
        urls := Some (take (max_scraped_websites self) (iter_set ev filtered))\<rparr>"
    by (auto simp: web_crawl_def Let_def and_then_def split: sum.splits if_splits)
  from link_filter_result [OF f] have sub: "filtered \<subseteq> set ?kept" by auto
  then have "finite filtered" by (rule finite_subset) simp
  from assms(2) [OF this] have it: "set (iter_set ev filtered) = filtered"
    "distinct (iter_set ev filtered)"
    by (simp_all add: iterates_def)
  let ?us = "take (max_scraped_websites self) (iter_set ev filtered)"
  have "set ?us \<subseteq> set (iter_set ev filtered)" by (rule set_take_subset)
  with it(1) sub have "set ?us \<subseteq> set urls_arg" by auto
  with c it(2) have "urls crawled = Some ?us \<and> distinct ?us \<and> set ?us \<subseteq> set urls_arg"
    by simp
  then show ?thesis by (rule exI)
qed

lemma listed_order_iterates:
  "S \<subseteq> set universe \<Longrightarrow> distinct universe \<Longrightarrow> iterates (sample_env universe) S"
  by (auto simp: iterates_def sample_env_def listed_order_def)

section \<open>The markers of a context\<close>

lemma digit_char_props:
  assumes "d < 10"
  shows "is_digit (digit_char d) \<and> digit_val (digit_char d) = d"
proof -
  from assms consider "d = 0" | "d = 1" | "d = 2" | "d = 3" | "d = 4" | "d = 5" | "d = 6"
    | "d = 7" | "d = 8" | "d = 9"
    by atomize_elim arith
  then show ?thesis
    by cases (simp_all add: digit_char_def is_digit_def digit_val_def)
qed

lemma int_of_digits_snoc: "int_of_digits (ds @ [c]) = 10 * int_of_digits ds + digit_val c"
  by (simp add: int_of_digits_def)

lemma str_nat_digits: "str_nat n \<noteq> [] \<and> list_all is_digit (str_nat n) \<and> int_of_digits (str_nat n) = n"
proof (induction n rule: str_nat.induct)
  case (1 n)
  show ?case
  proof (cases "n < 10")
    case True
    then have "str_nat n = [digit_char n]" by (simp add: str_nat.simps)
    with digit_char_props [OF True] show ?thesis by (simp add: int_of_digits_def)
  next
    case False
    then have s: "str_nat n = str_nat (n div 10) @ [digit_char (n mod 10)]"
      by (subst str_nat.simps) simp
    have m: "n mod 10 < 10" by simp
    from "1.IH" [OF False] digit_char_props [OF m] show ?thesis
      by (simp add: s int_of_digits_snoc)
  qed
qed

lemma reference_marker: "is_marker (''[reference:'' @ str_nat n @ '']'') (str_nat n)"
  using str_nat_digits [of n]
  by (intro is_markerI [where w = "''reference:''" and sp = "[]"]) (simp_all add: to_lower_def)

lemma marker_numbers_no_marker: "\<not> contains_marker t \<Longrightarrow> marker_numbers t = []"
proof (induction t)
  case Nil
  show ?case by simp
next
  case (Cons c cs)
  have none: "match_marker (c # cs) = None"
  proof (rule ccontr)
    assume "match_marker (c # cs) \<noteq> None"
    then obtain ds rest where "match_marker (c # cs) = Some (ds, rest)"
      by (cases "match_marker (c # cs)") auto
    from match_marker_sound [OF this] obtain m where "is_marker m ds" "c # cs = m @ rest"
      by (elim exE conjE)
    with contains_markerI [of m ds "[]" rest] Cons.prems show False by simp
  qed
  from Cons.prems have "\<not> contains_marker cs" by (auto dest: contains_marker_Cons)
  with Cons.IH none show ?case by simp
qed

lemma marker_numbers_no_bracket: "CHR ''['' \<notin> set t \<Longrightarrow> marker_numbers t = []"
  by (rule marker_numbers_no_marker) (auto dest: contains_marker_bracket)

lemma marker_numbers_at_marker:
  assumes "is_marker m ds"
  shows "marker_numbers (pre @ m @ post) =
         marker_numbers pre @ int_of_digits ds # marker_numbers post"
proof (induction pre rule: marker_numbers.induct)
  case 1
  from is_marker_bracket [OF assms] obtain t where t: "m = CHR ''['' # t"
    by (elim exE conjE)
  from match_marker_complete [OF assms, of post]
  have "match_marker (CHR ''['' # t @ post) = Some (ds, post)" by (simp add: t)
  then show ?case by (simp add: t)
next
  case (2 c cs)
  show ?case
  proof (cases "match_marker (c # cs)")
    case None
    then have ext: "match_marker (c # cs @ m @ post) = None"
      using assms by (rule match_marker_None_extend)
    from "2.IH"(1) [OF None] None ext show ?thesis by simp
  next
    case (Some p)
    obtain ds' rest' where p: "p = (ds', rest')" by (cases p)
    from Some p have some: "match_marker (c # cs) = Some (ds', rest')" by simp
    from match_marker_extend [OF some, of "m @ post"]
    have ext: "match_marker (c # cs @ m @ post) = Some (ds', rest' @ m @ post)" by simp
    from "2.IH"(2) [OF some refl] some ext show ?thesis by simp
  qed
qed

lemma match_marker_not_bracket: "CHR ''['' \<noteq> c \<Longrightarrow> match_marker (c # cs) = None"
  by (simp add: match_marker_def)

lemma marker_numbers_skip: "CHR ''['' \<notin> set pre \<Longrightarrow> marker_numbers (pre @ t) = marker_numbers t"
  by (induction pre) (simp_all add: match_marker_not_bracket)

lemma str_join_Cons:
  "str_join sep (x # xs) = x @ (if xs = [] then [] else sep @ str_join sep xs)"
  by (cases xs) simp_all

lemma context_entries_empty: "context_entries i R = [] \<longleftrightarrow> R = []"
  by (cases R) simp_all

text \<open>A marker holds no newline, so a match cannot reach over the end of a line.\<close>

lemma not_digit_newline: "\<not> is_digit (CHR 0x0A)"
  by (simp add: is_digit_def)

lemma is_marker_no_newline:
  assumes "is_marker m ds"
  shows "CHR 0x0A \<notin> set m"
proof -
  from assms obtain w sp where m: "m = CHR ''['' # w @ sp @ ds @ '']''"
    and w: "map to_lower w = ''reference:''" and sp: "sp = [] \<or> sp = '' ''"
    and ds: "ds \<noteq> []" "list_all is_digit ds"
    by (rule is_markerE)
  have "CHR 0x0A \<notin> set w"
  proof
    assume "CHR 0x0A \<in> set w"
    then have "to_lower CHR 0x0A \<in> to_lower ` set w" by (rule imageI)
    then have "to_lower CHR 0x0A \<in> set (map to_lower w)" by simp
    then show False unfolding w by (simp add: to_lower_def)
  qed
  moreover have "CHR 0x0A \<notin> set ds"
    using ds(2) not_digit_newline by (auto simp: list_all_iff)
  moreover have "CHR 0x0A \<notin> set sp" using sp by auto
  ultimately show ?thesis using m by simp
qed

lemma match_marker_before_newline:
  assumes "\<not> contains_marker (c # cs)"
  shows "match_marker (c # cs @ CHR 0x0A # t) = None"
proof (rule ccontr)
  assume "match_marker (c # cs @ CHR 0x0A # t) \<noteq> None"
  then obtain ds rest where some: "match_marker (c # cs @ CHR 0x0A # t) = Some (ds, rest)"
    by (cases "match_marker (c # cs @ CHR 0x0A # t)") auto
  from match_marker_sound [OF some] obtain m where m: "is_marker m ds"
    and eq: "c # cs @ CHR 0x0A # t = m @ rest"
    by (elim exE conjE)
  from eq have eq': "(c # cs) @ (CHR 0x0A # t) = m @ rest" by simp
  show False
  proof (cases "length m \<le> length (c # cs)")
    case True
    from append_eq_prefix [OF eq' True]
    have e: "c # cs = m @ drop (length m) (c # cs)" .
    have "contains_marker ([] @ m @ drop (length m) (c # cs))"
      using m by (rule contains_markerI)
    then have "contains_marker (m @ drop (length m) (c # cs))" by simp
    then have "contains_marker (c # cs)" by (simp only: e [symmetric])
    with assms show False by simp
  next
    case False
    define k where "k = length (c # cs)"
    from False have k: "k < length m" by (simp add: k_def)
    from eq' have "((c # cs) @ (CHR 0x0A # t)) ! k = (m @ rest) ! k" by simp
    then have "m ! k = CHR 0x0A"
      using k by (simp add: nth_append k_def)
    with k have "CHR 0x0A \<in> set m" by (metis nth_mem)
    with is_marker_no_newline [OF m] show False by simp
  qed
qed

lemma marker_numbers_skip_line:
  "\<not> contains_marker pre \<Longrightarrow>
   marker_numbers (pre @ CHR 0x0A # t) = marker_numbers (CHR 0x0A # t)"
proof (induction pre)
  case Nil
  show ?case by simp
next
  case (Cons c cs)
  from match_marker_before_newline [OF Cons.prems]
  have none: "match_marker (c # cs @ CHR 0x0A # t) = None" .
  from Cons.prems have "\<not> contains_marker cs" by (auto dest: contains_marker_Cons)
  from Cons.IH [OF this] have "marker_numbers (cs @ CHR 0x0A # t) = marker_numbers (CHR 0x0A # t)" .
  moreover have "marker_numbers ((c # cs) @ CHR 0x0A # t) = marker_numbers (cs @ CHR 0x0A # t)"
    using none by simp
  ultimately show ?case by (simp only:)
qed

text \<open>The scan finds a marker exactly in the texts that contain one.\<close>

lemma contains_marker_numbers: "contains_marker t \<longleftrightarrow> marker_numbers t \<noteq> []"
proof
  assume "contains_marker t"
  then obtain pre m ds post where t: "t = pre @ m @ post" and m: "is_marker m ds"
    unfolding contains_marker_def by (elim exE conjE)
  from marker_numbers_at_marker [OF m, of pre post] t show "marker_numbers t \<noteq> []" by simp
next
  assume "marker_numbers t \<noteq> []"
  with marker_numbers_no_marker [of t] show "contains_marker t" by (cases "contains_marker t") simp_all
qed

lemma marker_numbers_entries:
  assumes "\<forall>r \<in> set R.
     \<not> contains_marker (get_or_empty (title r) @ '': '' @ get_or_empty (snippet r))"
  shows "marker_numbers (str_join [CHR 0x0A, CHR 0x0A] (context_entries i R)) =
         [i + 1 ..< i + 1 + length R]"
  using assms
proof (induction R arbitrary: i)
  case Nil
  show ?case by simp
next
  case (Cons r R)
  let ?nl = "[CHR 0x0A, CHR 0x0A]"
  let ?body = "get_or_empty (title r) @ '': '' @ get_or_empty (snippet r)"
  let ?rest = "str_join ?nl (context_entries (Suc i) R)"
  let ?more = "if context_entries (Suc i) R = [] then [] else ?nl @ ?rest"
  from Cons.prems have nb: "\<not> contains_marker ?body" by simp
  from Cons.prems have "\<forall>r \<in> set R.
     \<not> contains_marker (get_or_empty (title r) @ '': '' @ get_or_empty (snippet r))" by simp
  from Cons.IH [OF this, of "Suc i"]
  have ih: "marker_numbers ?rest = [Suc i + 1 ..< Suc i + 1 + length R]" .
  have sp: "marker_numbers ('' '' @ u) = marker_numbers u" for u
    by (rule marker_numbers_skip) simp
  have more: "marker_numbers ('' '' @ ?body @ ?more) = [Suc i + 1 ..< Suc i + 1 + length R]"
  proof (cases R)
    case Nil
    from marker_numbers_no_marker [OF nb] sp [of ?body] Nil show ?thesis by simp
  next
    case (Cons r' R')
    then have ne: "context_entries (Suc i) R \<noteq> []" by simp
    have "marker_numbers ('' '' @ ?body @ ?nl @ ?rest) = marker_numbers (?body @ ?nl @ ?rest)"
      by (rule sp)
    also have "\<dots> = marker_numbers (?body @ CHR 0x0A # (CHR 0x0A # ?rest))" by simp
    also have "\<dots> = marker_numbers (CHR 0x0A # (CHR 0x0A # ?rest))"
      using nb by (rule marker_numbers_skip_line)
    also have "\<dots> = marker_numbers (?nl @ ?rest)" by simp
    also have "\<dots> = marker_numbers ?rest"
      by (rule marker_numbers_skip) simp
    finally show ?thesis using ne ih by simp
  qed
  have joined: "str_join ?nl (context_entries i (r # R)) =
        [] @ (''[reference:'' @ str_nat (i + 1) @ '']'') @ ('' '' @ ?body @ ?more)"
    by (simp add: str_join_Cons)
  have "marker_numbers (str_join ?nl (context_entries i (r # R))) =
        (i + 1) # [Suc i + 1 ..< Suc i + 1 + length R]"
    unfolding joined marker_numbers_at_marker [OF reference_marker] more
    using str_nat_digits [of "i + 1"] by simp
  also have "\<dots> = (i + 1) # [Suc (i + 1) ..< i + 1 + length (r # R)]"
    by simp
  also have "\<dots> = [i + 1 ..< i + 1 + length (r # R)]"
    by (rule upt_conv_Cons [symmetric]) simp
  finally show ?case .
qed

lemma search_context_marker_numbers:
  assumes "results_of resp \<noteq> []" and "result_links (results_of resp) = Inr ls"
    and "list_all (\<lambda>r. \<not> contains_marker
                          (get_or_empty (title r) @ '': '' @ get_or_empty (snippet r)))
           (results_of resp)"
  shows "marker_numbers (fst (search_context (Inr resp))) = [1 ..< length (results_of resp) + 1]"
proof -
  from assms(3) have "\<forall>r \<in> set (results_of resp).
      \<not> contains_marker (get_or_empty (title r) @ '': '' @ get_or_empty (snippet r))"
    by (simp add: list_all_iff)
  from marker_numbers_entries [OF this, of 0] search_context_results [OF assms(1,2)]
  show ?thesis by (simp add: blank_line_def)
qed

section \<open>Claims about \<open>querySerpapi\<close>\<close>

text \<open>
  Claim C6, as stated, fails: the context has one entry per result, but a title or a
  snippet that itself holds a marker adds to the markers of the context. The single
  result titled \<open>see [reference:7]\<close> gives a context with two markers, numbered 1 and 7.
\<close>

theorem formatContext_title_marker_is_counted:
  "length (results_of \<lparr>organic_results = Some [marker_title_result]\<rparr>) = 1 \<and>
   search_context (Inr \<lparr>organic_results = Some [marker_title_result]\<rparr>) =
     (''[reference:1] see [reference:7]: S'', [''L'']) \<and>
   marker_numbers (fst (search_context (Inr \<lparr>organic_results = Some [marker_title_result]\<rparr>))) =
     [1, 7]"
proof -
  have s: "str_nat (Suc 0) = ''1''" by (simp add: str_nat.simps digit_char_def)
  have c: "search_context (Inr \<lparr>organic_results = Some [marker_title_result]\<rparr>) =
     (''[reference:1] see [reference:7]: S'', [''L''])"
    by (simp add: search_context_def results_of_def marker_title_result_def and_then_def
        get_or_empty_def s)
  have n: "marker_numbers ''[reference:1] see [reference:7]: S'' = [1, 7]" by code_simp
  from c n show ?thesis by (simp add: results_of_def)
qed

text \<open>
  Claim C6, amended. The context built by \<open>querySerpapi\<close> from a non-empty list of
  results, each with its link, is the join with two newlines of one entry per result,
  the entry at 0-based position \<open>i\<close> being \<open>[reference:i+1] title: snippet\<close> (a missing
  title or snippet read as the empty string), and the links are those of the results in
  the same order. For an empty list of results the context is \<open>Answer not found\<close> and
  there is no link. With \<open>do_analysis\<close> off and a known engine, \<open>querySerpapi\<close> returns
  this context and these links. When no result has a marker in its \<open>title: snippet\<close>
  text, the markers that a scan of the context finds are numbered 1 to the number of
  results, in this order.
\<close>

theorem formatContext_numbered_entries:
  "(results_of resp = [] \<longrightarrow> search_context (Inr resp) = (''Answer not found'', [])) \<and>
   (results_of resp \<noteq> [] \<and> result_links (results_of resp) = Inr ls \<longrightarrow>
      (\<exists>entries.
         search_context (Inr resp) = (str_join [CHR 0x0A, CHR 0x0A] entries, ls) \<and>
         length entries = length (results_of resp) \<and>
         (\<forall>i < length (results_of resp).
            entries ! i =
              ''[reference:'' @ str_nat (i + 1) @ ''] '' @
              get_or_empty (title (results_of resp ! i)) @ '': '' @
              get_or_empty (snippet (results_of resp ! i)) \<and>
            link (results_of resp ! i) = Some (ls ! i)))) \<and>
   (eng = ''google'' \<or> eng = ''bing'' \<longrightarrow>
      querySerpapi ev query limit False eng =
        ([Search \<lparr>q = restrict_to_official_sites query OFFICIAL_SITES, num = limit, engine = eng\<rparr>],
         Inr (search_context
                (search_api ev
                   \<lparr>q = restrict_to_official_sites query OFFICIAL_SITES, num = limit, engine = eng\<rparr>)))) \<and>
   (results_of resp \<noteq> [] \<and> result_links (results_of resp) = Inr ls \<and>
    list_all (\<lambda>r. \<not> contains_marker
                        (get_or_empty (title r) @ '': '' @ get_or_empty (snippet r)))
      (results_of resp) \<longrightarrow>
      marker_numbers (fst (search_context (Inr resp))) = [1 ..< length (results_of resp) + 1])"
proof (intro conjI impI)
  assume "results_of resp = []"
  then show "search_context (Inr resp) = (''Answer not found'', [])"
    by (rule search_context_empty)
next
  assume a: "results_of resp \<noteq> [] \<and> result_links (results_of resp) = Inr ls"
  let ?R = "results_of resp"
  let ?es = "context_entries 0 ?R"
  from a have "search_context (Inr resp) = (str_join [CHR 0x0A, CHR 0x0A] ?es, ls)"
    by (simp add: search_context_results blank_line_def)
  moreover have "length ?es = length ?R" by (rule context_entries_length)
  moreover have "\<forall>i < length ?R.
      ?es ! i = ''[reference:'' @ str_nat (i + 1) @ ''] '' @ get_or_empty (title (?R ! i)) @ '': '' @
        get_or_empty (snippet (?R ! i)) \<and> link (?R ! i) = Some (ls ! i)"
    using a by (simp add: context_entries_nth result_links_nth)
  ultimately show "\<exists>entries.
         search_context (Inr resp) = (str_join [CHR 0x0A, CHR 0x0A] entries, ls) \<and>
         length entries = length ?R \<and>
         (\<forall>i < length ?R.
            entries ! i =
              ''[reference:'' @ str_nat (i + 1) @ ''] '' @ get_or_empty (title (?R ! i)) @ '': '' @
              get_or_empty (snippet (?R ! i)) \<and>
            link (?R ! i) = Some (ls ! i))"
    by (intro exI [of _ ?es] conjI)
next
  assume "eng = ''google'' \<or> eng = ''bing''"
  from querySerpapi_valid_engine [OF this, of ev query limit False]
  show "querySerpapi ev query limit False eng =
        ([Search \<lparr>q = restrict_to_official_sites query OFFICIAL_SITES, num = limit, engine = eng\<rparr>],
         Inr (search_context
                (search_api ev
                   \<lparr>q = restrict_to_official_sites query OFFICIAL_SITES, num = limit, engine = eng\<rparr>)))"
    by (simp add: Let_def)
next
  assume "results_of resp \<noteq> [] \<and> result_links (results_of resp) = Inr ls \<and>
    list_all (\<lambda>r. \<not> contains_marker
                        (get_or_empty (title r) @ '': '' @ get_or_empty (snippet r)))
      (results_of resp)"
  then show "marker_numbers (fst (search_context (Inr resp))) = [1 ..< length (results_of resp) + 1]"
    by (simp add: search_context_marker_numbers)
qed

theorem formatContext_numbered_entries_witness:
  "results_of \<lparr>organic_results = None\<rparr> = [] \<and>
   search_context (Inr \<lparr>organic_results = None\<rparr>) = (''Answer not found'', []) \<and>
   results_of \<lparr>organic_results = Some solved_results\<rparr> \<noteq> [] \<and>
   result_links (results_of \<lparr>organic_results = Some solved_results\<rparr>) = Inr [''L1'', ''L2'', ''L3''] \<and>
   search_context (Inr \<lparr>organic_results = Some solved_results\<rparr>) =
     (''[reference:1] [SOLVED] wifi: S1'' @ [CHR 0x0A, CHR 0x0A] @ ''[reference:2] : S2'' @
        [CHR 0x0A, CHR 0x0A] @ ''[reference:3] T3: '',
      [''L1'', ''L2'', ''L3'']) \<and>
   querySerpapi ((sample_env []) \<lparr>search_api := fixed_search solved_results\<rparr>) ''battery'' 3 False ''google'' =
     ([Search \<lparr>q = restrict_to_official_sites ''battery'' OFFICIAL_SITES, num = 3, engine = ''google''\<rparr>],
      Inr (''[reference:1] [SOLVED] wifi: S1'' @ [CHR 0x0A, CHR 0x0A] @ ''[reference:2] : S2'' @
             [CHR 0x0A, CHR 0x0A] @ ''[reference:3] T3: '',
           [''L1'', ''L2'', ''L3''])) \<and>
   list_all (\<lambda>r. \<not> contains_marker
                       (get_or_empty (title r) @ '': '' @ get_or_empty (snippet r)))
     (results_of \<lparr>organic_results = Some solved_results\<rparr>) \<and>
   marker_numbers (fst (search_context (Inr \<lparr>organic_results = Some solved_results\<rparr>))) = [1, 2, 3]"
proof -
  let ?none = "\<lparr>organic_results = None\<rparr>"
  let ?resp = "\<lparr>organic_results = Some solved_results\<rparr>"
  let ?ev = "(sample_env []) \<lparr>search_api := fixed_search solved_results\<rparr>"
  have e: "results_of ?none = []" by (simp add: results_of_def)
  have r: "results_of ?resp = solved_results" by (simp add: results_of_def)
  have ne: "results_of ?resp \<noteq> []" by (simp add: results_of_def solved_results_def)
  have ls: "result_links (results_of ?resp) = Inr [''L1'', ''L2'', ''L3'']"
    by (simp add: results_of_def solved_results_def and_then_def)
  have g: "''google'' = ''google'' \<or> ''google'' = ''bing''" by simp
  note inst1 = formatContext_numbered_entries [of ?none "[]" "''google''" ?ev "''battery''" 3]
  note inst2 = formatContext_numbered_entries [of ?resp "[''L1'', ''L2'', ''L3'']" "''google''" ?ev "''battery''" 3]
  from conjunct1 [OF inst1] e
  have c1: "search_context (Inr ?none) = (''Answer not found'', [])" by (rule mp)
  from mp [OF conjunct1 [OF conjunct2 [OF inst2]] conjI [OF ne ls]] obtain entries where
    sc: "search_context (Inr ?resp) = (str_join [CHR 0x0A, CHR 0x0A] entries, [''L1'', ''L2'', ''L3''])"
    and len: "length entries = length (results_of ?resp)"
    and nth: "\<forall>i < length (results_of ?resp).
            entries ! i =
              ''[reference:'' @ str_nat (i + 1) @ ''] '' @
              get_or_empty (title (results_of ?resp ! i)) @ '': '' @
              get_or_empty (snippet (results_of ?resp ! i)) \<and>
            link (results_of ?resp ! i) = Some ([''L1'', ''L2'', ''L3''] ! i)"
    by (elim exE conjE)
  from len have l3: "length entries = 3" by (simp add: results_of_def solved_results_def)
  then obtain a b c where abc: "entries = [a, b, c]"
    by (auto simp: length_Suc_conv numeral_3_eq_3)
  have s1: "str_nat (Suc 0) = ''1''" and s2: "str_nat (Suc (Suc 0)) = ''2''"
    and s3: "str_nat (Suc (Suc (Suc 0))) = ''3''" and s3': "str_nat 3 = ''3''"
    by (simp_all add: str_nat.simps digit_char_def)
  from spec [OF nth, of 0] have "entries ! 0 = ''[reference:1] [SOLVED] wifi: S1''"
    by (simp add: results_of_def solved_results_def get_or_empty_def s1)
  moreover from spec [OF nth, of 1] have "entries ! 1 = ''[reference:2] : S2''"
    by (simp add: results_of_def solved_results_def get_or_empty_def s2)
  moreover from spec [OF nth, of 2] have "entries ! 2 = ''[reference:3] T3: ''"
    by (simp add: results_of_def solved_results_def get_or_empty_def s3 s3')
  ultimately have ent: "entries =
      [''[reference:1] [SOLVED] wifi: S1'', ''[reference:2] : S2'', ''[reference:3] T3: '']"
    by (simp add: abc)
  from sc ent have c2: "search_context (Inr ?resp) =
     (''[reference:1] [SOLVED] wifi: S1'' @ [CHR 0x0A, CHR 0x0A] @ ''[reference:2] : S2'' @
        [CHR 0x0A, CHR 0x0A] @ ''[reference:3] T3: '',
      [''L1'', ''L2'', ''L3''])"
    by simp
  from conjunct1 [OF conjunct2 [OF conjunct2 [OF inst2]]] g have "querySerpapi ?ev ''battery'' 3 False ''google'' =
     ([Search \<lparr>q = restrict_to_official_sites ''battery'' OFFICIAL_SITES, num = 3, engine = ''google''\<rparr>],
      Inr (search_context (search_api ?ev
         \<lparr>q = restrict_to_official_sites ''battery'' OFFICIAL_SITES, num = 3, engine = ''google''\<rparr>)))"
    by (rule mp)
  then have c3: "querySerpapi ?ev ''battery'' 3 False ''google'' =
     ([Search \<lparr>q = restrict_to_official_sites ''battery'' OFFICIAL_SITES, num = 3, engine = ''google''\<rparr>],
      Inr (''[reference:1] [SOLVED] wifi: S1'' @ [CHR 0x0A, CHR 0x0A] @ ''[reference:2] : S2'' @
             [CHR 0x0A, CHR 0x0A] @ ''[reference:3] T3: '',
           [''L1'', ''L2'', ''L3'']))"
    using c2 by (simp add: sample_env_def fixed_search_def)
  have n1: "marker_numbers ''[SOLVED] wifi: S1'' = []" by code_simp
  have n2: "marker_numbers '': S2'' = []" by code_simp
  have n3: "marker_numbers ''T3: '' = []" by code_simp
  have m1: "\<not> contains_marker ''[SOLVED] wifi: S1''"
    using n1 by (simp only: contains_marker_numbers not_not)
  have m2: "\<not> contains_marker '': S2''"
    using n2 by (simp only: contains_marker_numbers not_not)
  have m3: "\<not> contains_marker ''T3: ''"
    using n3 by (simp only: contains_marker_numbers not_not)
  have nb: "list_all (\<lambda>r. \<not> contains_marker
                       (get_or_empty (title r) @ '': '' @ get_or_empty (snippet r)))
     (results_of ?resp)"
    using m1 m2 m3 by (simp add: results_of_def solved_results_def get_or_empty_def)
  from mp [OF conjunct2 [OF conjunct2 [OF conjunct2 [OF inst2]]] conjI [OF ne conjI [OF ls nb]]]
  have c4: "marker_numbers (fst (search_context (Inr ?resp))) = [1, 2, 3]"
    by (simp add: results_of_def solved_results_def upt_rec)
  from e c1 ne ls c2 c3 nb c4 show ?thesis by (intro conjI)
qed

text \<open>
  Claim C7, as stated, fails: when the search call raises, \<open>Answer not found\<close> and the
  empty list of links are what the \<open>try\<close> block leaves, but with \<open>do_analysis\<close> on, its
  default, the value returned is the linkified answer of the language model to a prompt
  about that context, and an exception of that part is not caught. Here the search call
  raises; one language model answers \<open>No answer\<close>, which is returned in place of the
  sentinel, and another answers \<open>see [reference:0]\<close>, on which linkifying with no link
  raises \<open>IndexError\<close>.
\<close>

theorem querySerpapi_analysis_returns_model_answer:
  "search_api (sample_env [])
     \<lparr>q = restrict_to_official_sites ''wifi'' OFFICIAL_SITES, num = 5, engine = ''bing''\<rparr> =
     Inl (ExternalError ''connection refused'') \<and>
   querySerpapi (sample_env []) ''wifi'' 5 True ''bing'' =
     ([Search \<lparr>q = restrict_to_official_sites ''wifi'' OFFICIAL_SITES, num = 5, engine = ''bing''\<rparr>,
       Llm ''wifi | Answer not found''],
      Inr (''No answer'', [])) \<and>
   search_api zero_citing_env
     \<lparr>q = restrict_to_official_sites ''wifi'' OFFICIAL_SITES, num = 5, engine = ''bing''\<rparr> =
     Inl (ExternalError ''connection refused'') \<and>
   querySerpapi zero_citing_env ''wifi'' 5 True ''bing'' =
     ([Search \<lparr>q = restrict_to_official_sites ''wifi'' OFFICIAL_SITES, num = 5, engine = ''bing''\<rparr>,
       Llm ''wifi | Answer not found''],
      Inl IndexError)"
proof -
  have b: "''bing'' = ''google'' \<or> ''bing'' = ''bing''" by simp
  have s1: "parse_serp_analysis_output ''No answer'' [] = Inr ''No answer''" by code_simp
  have s2: "parse_serp_analysis_output ''see [reference:0]'' [] = Inl IndexError" by code_simp
  have a1: "search_api (sample_env [])
     \<lparr>q = restrict_to_official_sites ''wifi'' OFFICIAL_SITES, num = 5, engine = ''bing''\<rparr> =
     Inl (ExternalError ''connection refused'')"
    by (simp add: sample_env_def failing_search_def)
  have a2: "search_api zero_citing_env
     \<lparr>q = restrict_to_official_sites ''wifi'' OFFICIAL_SITES, num = 5, engine = ''bing''\<rparr> =
     Inl (ExternalError ''connection refused'')"
    by (simp add: zero_citing_env_def sample_env_def failing_search_def)
  from querySerpapi_no_results(2) [OF b sample_search_fails, of "[]" "''wifi''" 5]
  have c1: "querySerpapi (sample_env []) ''wifi'' 5 True ''bing'' =
     ([Search \<lparr>q = restrict_to_official_sites ''wifi'' OFFICIAL_SITES, num = 5, engine = ''bing''\<rparr>,
       Llm ''wifi | Answer not found''],
      Inr (''No answer'', []))"
    by (simp add: sample_env_def plain_prompt_def fixed_llm_def and_then_def s1)
  from querySerpapi_no_results(2) [OF b zero_citing_search_fails, of "''wifi''" 5]
  have c2: "querySerpapi zero_citing_env ''wifi'' 5 True ''bing'' =
     ([Search \<lparr>q = restrict_to_official_sites ''wifi'' OFFICIAL_SITES, num = 5, engine = ''bing''\<rparr>,
       Llm ''wifi | Answer not found''],
      Inl IndexError)"
    by (simp add: zero_citing_env_def sample_env_def plain_prompt_def fixed_llm_def and_then_def s2)
  from a1 c1 a2 c2 show ?thesis by (intro conjI)
qed

text \<open>
  Claim C7, amended. An engine other than \<open>google\<close> and \<open>bing\<close> makes \<open>querySerpapi\<close>
  raise \<open>ValueError\<close> with no request sent. With a known engine, when the search call
  raises, returns no organic result, or returns a result without a link, that exception
  is not propagated. With \<open>do_analysis\<close> off, the value returned is \<open>Answer not found\<close>
  with the empty list of links, after the one search request. With \<open>do_analysis\<close> on, the
  language model is asked about the context \<open>Answer not found\<close>; an exception of the
  language model is the outcome; otherwise the outcome is that of linkifying its answer
  with no link, returned with the empty list of links; so every value returned has the
  empty list of links.
\<close>

theorem querySerpapi_failure_is_no_results:
  "(eng \<noteq> ''google'' \<and> eng \<noteq> ''bing'' \<longrightarrow>
      querySerpapi ev query limit do_analysis eng =
        ([], Inl (ValueError ''engine must be either google or bing''))) \<and>
   ((eng = ''google'' \<or> eng = ''bing'') \<and>
    search_api ev \<lparr>q = restrict_to_official_sites query OFFICIAL_SITES, num = limit, engine = eng\<rparr>
      = outcome \<and>
    ((\<exists>e. outcome = Inl e) \<or>
     (\<exists>resp. outcome = Inr resp \<and>
        (results_of resp = [] \<or> (\<exists>e. result_links (results_of resp) = Inl e)))) \<longrightarrow>
      querySerpapi ev query limit False eng =
        ([Search \<lparr>q = restrict_to_official_sites query OFFICIAL_SITES, num = limit, engine = eng\<rparr>],
         Inr (''Answer not found'', [])) \<and>
      fst (querySerpapi ev query limit True eng) =
        [Search \<lparr>q = restrict_to_official_sites query OFFICIAL_SITES, num = limit, engine = eng\<rparr>,
         Llm (serp_prompt ev query ''Answer not found'')] \<and>
      (\<forall>e. llm_invoke ev (serp_prompt ev query ''Answer not found'') = Inl e \<longrightarrow>
           snd (querySerpapi ev query limit True eng) = Inl e) \<and>
      (\<forall>answer. llm_invoke ev (serp_prompt ev query ''Answer not found'') = Inr answer \<longrightarrow>
           snd (querySerpapi ev query limit True eng) =
             and_then (parse_serp_analysis_output answer []) (\<lambda>parsed. Inr (parsed, []))) \<and>
      (\<forall>parsed ls. snd (querySerpapi ev query limit True eng) = Inr (parsed, ls) \<longrightarrow> ls = []))"
proof (intro conjI impI allI)
  assume "eng \<noteq> ''google'' \<and> eng \<noteq> ''bing''"
  then show "querySerpapi ev query limit do_analysis eng =
        ([], Inl (ValueError ''engine must be either google or bing''))"
    by (simp add: querySerpapi_def Let_def)
next
  let ?params = "\<lparr>q = restrict_to_official_sites query OFFICIAL_SITES, num = limit, engine = eng\<rparr>"
  let ?prompt = "serp_prompt ev query ''Answer not found''"
  assume a: "(eng = ''google'' \<or> eng = ''bing'') \<and> search_api ev ?params = outcome \<and>
    ((\<exists>e. outcome = Inl e) \<or>
     (\<exists>resp. outcome = Inr resp \<and>
        (results_of resp = [] \<or> (\<exists>e. result_links (results_of resp) = Inl e))))"
  then have eng: "eng = ''google'' \<or> eng = ''bing''" and out: "search_api ev ?params = outcome"
    by simp_all
  from a have "search_context outcome = (''Answer not found'', [])"
    by (auto simp: search_context_failure search_context_empty search_context_bad_result)
  with out have ctx: "search_context (search_api ev ?params) = (''Answer not found'', [])"
    by simp
  from querySerpapi_no_results(1) [OF eng ctx]
  show "querySerpapi ev query limit False eng = ([Search ?params], Inr (''Answer not found'', []))" .
  note analysed = querySerpapi_no_results(2) [OF eng ctx]
  from analysed show "fst (querySerpapi ev query limit True eng) = [Search ?params, Llm ?prompt]"
    by simp
  {
    fix e
    assume "llm_invoke ev ?prompt = Inl e"
    with analysed show "snd (querySerpapi ev query limit True eng) = Inl e"
      by (simp add: and_then_def)
  }
  {
    fix answer
    assume "llm_invoke ev ?prompt = Inr answer"
    with analysed show "snd (querySerpapi ev query limit True eng) =
             and_then (parse_serp_analysis_output answer []) (\<lambda>parsed. Inr (parsed, []))"
      by (simp add: and_then_def)
  }
  {
    fix parsed ls
    assume "snd (querySerpapi ev query limit True eng) = Inr (parsed, ls)"
    with analysed show "ls = []"
      by (simp add: and_then_def split: sum.splits)
  }
qed

theorem querySerpapi_failure_is_no_results_witness:
  "''duckduckgo'' \<noteq> ''google'' \<and> ''duckduckgo'' \<noteq> ''bing'' \<and>
   querySerpapi (sample_env []) ''battery'' 3 True ''duckduckgo'' =
     ([], Inl (ValueError ''engine must be either google or bing'')) \<and>
   search_api (sample_env [])
     \<lparr>q = restrict_to_official_sites ''battery'' OFFICIAL_SITES, num = 3, engine = ''google''\<rparr> =
     Inl (ExternalError ''connection refused'') \<and>
   querySerpapi (sample_env []) ''battery'' 3 False ''google'' =
     ([Search \<lparr>q = restrict_to_official_sites ''battery'' OFFICIAL_SITES, num = 3, engine = ''google''\<rparr>],
      Inr (''Answer not found'', [])) \<and>
   fst (querySerpapi (sample_env []) ''battery'' 3 True ''google'') =
     [Search \<lparr>q = restrict_to_official_sites ''battery'' OFFICIAL_SITES, num = 3, engine = ''google''\<rparr>,
      Llm ''battery | Answer not found''] \<and>
   llm_invoke (sample_env []) ''battery | Answer not found'' = Inr ''No answer'' \<and>
   snd (querySerpapi (sample_env []) ''battery'' 3 True ''google'') = Inr (''No answer'', [])"
proof -
  let ?ev = "sample_env []"
  let ?params = "\<lparr>q = restrict_to_official_sites ''battery'' OFFICIAL_SITES, num = 3, engine = ''google''\<rparr>"
  let ?out = "Inl (ExternalError ''connection refused'') :: py_error + response"
  have h1: "''duckduckgo'' \<noteq> ''google'' \<and> ''duckduckgo'' \<noteq> ''bing''" by simp
  from conjunct1 [OF querySerpapi_failure_is_no_results
      [where eng = "''duckduckgo''" and ev = ?ev and query = "''battery''" and limit = 3
         and do_analysis = True]] h1
  have c1: "querySerpapi ?ev ''battery'' 3 True ''duckduckgo'' =
     ([], Inl (ValueError ''engine must be either google or bing''))"
    by (rule mp)
  have h2: "search_api ?ev ?params = ?out"
    by (simp add: sample_env_def failing_search_def)
  have h3: "(''google'' = ''google'' \<or> ''google'' = ''bing'') \<and> search_api ?ev ?params = ?out \<and>
    ((\<exists>e. ?out = Inl e) \<or>
     (\<exists>resp. ?out = Inr resp \<and>
        (results_of resp = [] \<or> (\<exists>e. result_links (results_of resp) = Inl e))))"
    using h2 by simp
  note c2 = mp [OF conjunct2 [OF querySerpapi_failure_is_no_results
      [where eng = "''google''" and ev = ?ev and query = "''battery''" and limit = 3
         and outcome = ?out]] h3]
  have p: "serp_prompt ?ev ''battery'' ''Answer not found'' = ''battery | Answer not found''"
    by (simp add: sample_env_def plain_prompt_def)
  have l: "llm_invoke ?ev ''battery | Answer not found'' = Inr ''No answer''"
    by (simp add: sample_env_def fixed_llm_def)
  have s: "parse_serp_analysis_output ''No answer'' [] = Inr ''No answer''"
    by code_simp
  from conjunct1 [OF c2] have c3: "querySerpapi ?ev ''battery'' 3 False ''google'' =
     ([Search ?params], Inr (''Answer not found'', []))" .
  from conjunct1 [OF conjunct2 [OF c2]]
  have c4: "fst (querySerpapi ?ev ''battery'' 3 True ''google'') =
     [Search ?params, Llm ''battery | Answer not found'']"
    by (simp only: p)
  from conjunct1 [OF conjunct2 [OF conjunct2 [OF conjunct2 [OF c2]]]]
  have "llm_invoke ?ev ''battery | Answer not found'' = Inr ''No answer'' \<longrightarrow>
        snd (querySerpapi ?ev ''battery'' 3 True ''google'') =
          and_then (parse_serp_analysis_output ''No answer'' []) (\<lambda>parsed. Inr (parsed, []))"
    unfolding p by (rule spec)
  with l have c5: "snd (querySerpapi ?ev ''battery'' 3 True ''google'') = Inr (''No answer'', [])"
    by (simp add: s and_then_def)
  from h1 c1 h2 c3 c4 l c5 show ?thesis by simp
qed

section \<open>Claims about \<open>parse_serp_analysis_output\<close>\<close>

text \<open>
  Claim C8. \<open>parse_serp_analysis_output\<close> is the identity on text without markers: when
  no substring of \<open>t\<close> has the form \<open>[reference:n]\<close> (any mix of cases, an optional space
  after the colon, \<open>n\<close> one or more decimal digits), the result is \<open>t\<close> itself, for every
  list of links. The text \<open>reference: see footnote\<close> is such a text.
\<close>

theorem linkify_identity_without_markers:
  assumes "\<not> contains_marker t"
  shows "parse_serp_analysis_output t links = Inr t"
  using assms by (simp add: parse_serp_analysis_output_def sub_markers_no_marker)

theorem linkify_identity_without_markers_witness:
  "\<not> contains_marker ''reference: see footnote'' \<and>
   parse_serp_analysis_output ''reference: see footnote'' [''https://a.example/x''] =
     Inr ''reference: see footnote''"
proof -
  have h: "\<not> contains_marker ''reference: see footnote''"
    by (rule notI, drule contains_marker_bracket) simp
  from h linkify_identity_without_markers [OF h, of "[''https://a.example/x'']"]
  show ?thesis by (rule conjI)
qed

text \<open>
  Claim C5. A marker whose number is greater than the number of links is meant to become
  the placeholder \<open>[<sup>n</sup>](#)\<close>, with no exception. The number is read with
  \<open>int(match.group(1))\<close> before the bound check, and \<open>int\<close> raises \<open>ValueError\<close>
  for more than 4300 digits: the marker \<open>[reference:99...9]\<close> with 4301 nines is a marker
  whose number is greater than the number of links, and with it the function raises
  instead of writing the placeholder.
\<close>

theorem linkify_raises_for_long_marker_number:
  "is_marker (''[reference:'' @ replicate 4301 CHR ''9'' @ '']'') (replicate 4301 CHR ''9'') \<and>
   length ([] :: string list) < int_of_digits (replicate 4301 CHR ''9'') \<and>
   parse_serp_analysis_output (''[reference:'' @ replicate 4301 CHR ''9'' @ '']'') [] =
     Inl (ValueError ''Exceeds the limit (4300 digits) for integer string conversion: value has 4301 digits; use sys.set_int_max_str_digits() to increase the limit'')"
proof (intro conjI)
  have d: "list_all is_digit (replicate 4301 CHR ''9'')"
    by (simp add: list_all_iff is_digit_def)
  show m: "is_marker (''[reference:'' @ replicate 4301 CHR ''9'' @ '']'') (replicate 4301 CHR ''9'')"
    using is_markerI [where w = "''reference:''" and sp = "[]" and ds = "replicate 4301 CHR ''9''"] d
    by (simp add: to_lower_def)
  have n: "(4301::nat) = Suc 4300" by simp
  have "replicate 4301 CHR ''9'' = replicate 4300 CHR ''9'' @ ''9''"
    unfolding n by (simp only: replicate_Suc replicate_append_same)
  then have "int_of_digits (replicate 4301 CHR ''9'') =
             10 * int_of_digits (replicate 4300 CHR ''9'') + digit_val CHR ''9''"
    by (simp only: int_of_digits_snoc)
  then show "length ([] :: string list) < int_of_digits (replicate 4301 CHR ''9'')"
    by (simp add: digit_val_def)
  have s: "str_nat 4301 = ''4301''"
    by (simp add: str_nat.simps digit_char_def)
  from sub_markers_at_marker [OF m, of "[]" "[]" "[]"]
    replace_reference_beyond_limit [of "replicate 4301 CHR ''9''" "[]"]
  show "parse_serp_analysis_output (''[reference:'' @ replicate 4301 CHR ''9'' @ '']'') [] =
     Inl (ValueError ''Exceeds the limit (4300 digits) for integer string conversion: value has 4301 digits; use sys.set_int_max_str_digits() to increase the limit'')"
    by (simp add: parse_serp_analysis_output_def and_then_def s)
qed

text \<open>
  For a marker of at most 4300 digits whose number is greater than the number of links,
  the replacement is the placeholder and does not raise, and the text before and after
  the marker is processed as it would be alone. A text all of whose markers are of this
  kind is processed without an exception.
\<close>

lemma linkify_out_of_range_placeholder:
  assumes "is_marker m ds" and "length ds \<le> 4300" and "length links < int_of_digits ds"
  shows "replace_reference links ds =
           Inr (''[<sup>'' @ str_nat (int_of_digits ds) @ ''</sup>](#)'') \<and>
         parse_serp_analysis_output (pre @ m @ post) links =
           and_then (parse_serp_analysis_output pre links) (\<lambda>a.
             and_then (parse_serp_analysis_output post links) (\<lambda>b.
               Inr (a @ ''[<sup>'' @ str_nat (int_of_digits ds) @ ''</sup>](#)'' @ b)))"
proof (intro conjI)
  from assms(2,3)
  show r: "replace_reference links ds =
             Inr (''[<sup>'' @ str_nat (int_of_digits ds) @ ''</sup>](#)'')"
    by (rule replace_reference_out_of_range)
  from sub_markers_at_marker [OF assms(1), of links pre post] r
  show "parse_serp_analysis_output (pre @ m @ post) links =
           and_then (parse_serp_analysis_output pre links) (\<lambda>a.
             and_then (parse_serp_analysis_output post links) (\<lambda>b.
               Inr (a @ ''[<sup>'' @ str_nat (int_of_digits ds) @ ''</sup>](#)'' @ b)))"
    by (simp add: parse_serp_analysis_output_def and_then_def split: sum.splits)
qed

lemma linkify_out_of_range_returns:
  assumes "\<forall>g \<in> set (marker_groups t). length g \<le> 4300 \<and> length links < int_of_digits g"
  shows "\<exists>out. parse_serp_analysis_output t links = Inr out"
proof -
  from assms have "\<forall>g \<in> set (marker_groups t). \<exists>r. replace_reference links g = Inr r"
    by (simp add: replace_reference_out_of_range)
  then show ?thesis
    unfolding parse_serp_analysis_output_def by (rule sub_markers_returns)
qed

lemma linkify_out_of_range_example:
  "parse_serp_analysis_output ''see [Reference: 7] and [reference:3]'' [''u1'', ''u2''] =
     Inr ''see [<sup>7</sup>](#) and [<sup>3</sup>](#)''"
  by code_simp

text \<open>
  Claim C10. With a non-empty list of links, the marker \<open>[reference:0]\<close> passes the bound
  check \<open>ref_num <= len(links)\<close> and \<open>links[-1]\<close> is the last link: the marker is
  replaced by \<open>[<sup>0</sup>](u)\<close> with \<open>u\<close> the last link, not by the placeholder. The
  text before and the text after the marker are processed as they would be alone, and
  an exception raised there is the exception of the whole.
\<close>

theorem linkify_reference_zero_is_last_link:
  assumes "links \<noteq> []"
  shows "parse_serp_analysis_output (pre @ ''[reference:0]'' @ post) links =
           and_then (parse_serp_analysis_output pre links) (\<lambda>a.
             and_then (parse_serp_analysis_output post links) (\<lambda>b.
               Inr (a @ ''[<sup>0</sup>]('' @ last links @ '')'' @ b)))"
  using sub_markers_at_marker [OF is_marker_reference_0, of links pre post]
    replace_reference_zero [OF assms]
  by (simp add: parse_serp_analysis_output_def and_then_def split: sum.splits)

theorem linkify_reference_zero_is_last_link_witness:
  "[''u1'', ''u2'', ''u3''] \<noteq> [] \<and>
   parse_serp_analysis_output (''x '' @ ''[reference:0]'' @ '' y'') [''u1'', ''u2'', ''u3''] =
     Inr ''x [<sup>0</sup>](u3) y''"
proof -
  have h: "[''u1'', ''u2'', ''u3''] \<noteq> []" by simp
  have pre: "parse_serp_analysis_output ''x '' [''u1'', ''u2'', ''u3''] = Inr ''x ''" by code_simp
  have post: "parse_serp_analysis_output '' y'' [''u1'', ''u2'', ''u3''] = Inr '' y''" by code_simp
  from linkify_reference_zero_is_last_link [OF h, of "''x ''" "'' y''"] pre post
  have "parse_serp_analysis_output (''x '' @ ''[reference:0]'' @ '' y'') [''u1'', ''u2'', ''u3''] =
     Inr ''x [<sup>0</sup>](u3) y''"
    by (simp add: and_then_def)
  with h show ?thesis by (rule conjI)
qed

text \<open>
  Whenever the links are not empty and every marker has at most 4300 digits, the
  function returns; so the text around \<open>[reference:0]\<close> is then processed to a result.
\<close>

lemma linkify_returns_with_links:
  assumes "links \<noteq> []" and "\<forall>g \<in> set (marker_groups t). length g \<le> 4300"
  shows "\<exists>out. parse_serp_analysis_output t links = Inr out"
proof -
  from assms have "\<forall>g \<in> set (marker_groups t). \<exists>r. replace_reference links g = Inr r"
    by (simp add: replace_reference_nonempty)
  then show ?thesis
    unfolding parse_serp_analysis_output_def by (rule sub_markers_returns)
qed

text \<open>With no link at all the same marker raises: \<open>links[-1]\<close> is out of range.\<close>

lemma linkify_reference_zero_no_links_raises:
  "parse_serp_analysis_output ''[reference:0]'' [] = Inl IndexError"
  by code_simp

text \<open>The scenario of a three-link search and an answer that cites the second link.\<close>

lemma linkify_cites_second_link:
  "parse_serp_analysis_output ''See [reference:2] for details.'' [''L1'', ''L2'', ''L3''] =
     Inr ''See [<sup>2</sup>](L2) for details.''"
  by code_simp

section \<open>Claims about \<open>link_filter\<close>, \<open>web_crawl\<close> and \<open>search_and_scrape\<close>\<close>

text \<open>
  Claim C9. When \<open>link_filter\<close> returns, the set returned holds links of the input only,
  none of which contains \<open>netloc + path\<close> of an excluded link as a substring, and every
  input link left out does contain one. With no excluded link the result is the set of
  the input links.
\<close>

theorem link_filter_drops_excluded:
  "(link_filter ev all_links excluded_links = Inr result \<longrightarrow>
      result \<subseteq> set all_links \<and>
      (\<forall>l \<in> result. \<forall>x \<in> set excluded_links. \<forall>p.
         urlparse ev x = Inr p \<longrightarrow> \<not> sublist (netloc p @ path p) l) \<and>
      (\<forall>l \<in> set all_links. l \<notin> result \<longrightarrow>
         (\<exists>x \<in> set excluded_links. \<exists>p. urlparse ev x = Inr p \<and> sublist (netloc p @ path p) l))) \<and>
   link_filter ev all_links [] = Inr (set all_links)"
proof (intro conjI impI)
  assume "link_filter ev all_links excluded_links = Inr result"
  note r = link_filter_result [OF this]
  show "result \<subseteq> set all_links" by (subst r) auto
  show "\<forall>l \<in> result. \<forall>x \<in> set excluded_links. \<forall>p.
         urlparse ev x = Inr p \<longrightarrow> \<not> sublist (netloc p @ path p) l"
    by (subst r) auto
  show "\<forall>l \<in> set all_links. l \<notin> result \<longrightarrow>
         (\<exists>x \<in> set excluded_links. \<exists>p. urlparse ev x = Inr p \<and> sublist (netloc p @ path p) l)"
    by (subst r) auto
next
  show "link_filter ev all_links [] = Inr (set all_links)" by (rule link_filter_no_excluded)
qed

theorem link_filter_drops_excluded_witness:
  "link_filter tracker_env
     [''https://ads.example.com/track/pixel'', ''https://docs.example.com/guide'']
     [''https://ads.example.com/track?id=1''] = Inr {''https://docs.example.com/guide''} \<and>
   urlparse tracker_env ''https://ads.example.com/track?id=1'' =
     Inr \<lparr>netloc = ''ads.example.com'', path = ''/track''\<rparr> \<and>
   \<not> sublist ''ads.example.com/track'' ''https://docs.example.com/guide'' \<and>
   sublist ''ads.example.com/track'' ''https://ads.example.com/track/pixel'' \<and>
   link_filter tracker_env
     [''https://ads.example.com/track/pixel'', ''https://docs.example.com/guide''] [] =
     Inr {''https://ads.example.com/track/pixel'', ''https://docs.example.com/guide''}"
proof -
  let ?L = "[''https://ads.example.com/track/pixel'', ''https://docs.example.com/guide'']"
  let ?E = "[''https://ads.example.com/track?id=1'']"
  let ?p = "\<lparr>netloc = ''ads.example.com'', path = ''/track''\<rparr>"
  have h: "link_filter tracker_env ?L ?E = Inr {''https://docs.example.com/guide''}"
    by code_simp
  have u: "urlparse tracker_env ''https://ads.example.com/track?id=1'' = Inr ?p"
    by (simp add: tracker_env_def sample_env_def table_urlparse_def)
  note inst = link_filter_drops_excluded
    [where ev = tracker_env and all_links = ?L and excluded_links = ?E
       and result = "{''https://docs.example.com/guide''}"]
  from mp [OF conjunct1 [OF inst] h]
  have kept: "\<forall>l \<in> {''https://docs.example.com/guide''}. \<forall>x \<in> set ?E. \<forall>p.
         urlparse tracker_env x = Inr p \<longrightarrow> \<not> sublist (netloc p @ path p) l"
    by (elim conjE)
  from kept u have c1: "\<not> sublist ''ads.example.com/track'' ''https://docs.example.com/guide''"
    by auto
  have c2: "sublist ''ads.example.com/track'' ''https://ads.example.com/track/pixel''"
    by code_simp
  from conjunct2 [OF inst]
  have c3: "link_filter tracker_env ?L [] =
     Inr {''https://ads.example.com/track/pixel'', ''https://docs.example.com/guide''}"
    by simp
  from h u c1 c2 c3 show ?thesis by (intro conjI)
qed

text \<open>
  Claim C3, as stated, fails: when every candidate link is filtered out, \<open>web_crawl\<close>
  raises \<open>ValueError\<close>, and \<open>search_and_scrape\<close>, which does not catch it, raises too.
  Here the only link found ends in \<open>.png\<close>.
\<close>

theorem web_crawl_raises_when_all_filtered:
  "web_crawl (sample_env []) sample_assistant [''https://cdn.example.com/logo.png''] None =
     Inl (ValueError no_sites_message) \<and>
   search_and_scrape logo_env sample_assistant ''logo'' ''serpapi'' 5 ''google'' =
     Inl (ValueError no_sites_message)"
proof -
  have l: "search_links logo_env ''serpapi'' ''logo'' 5 ''google'' =
           Inr [''https://cdn.example.com/logo.png'']"
    by (simp add: search_links_def logo_query and_then_def)
  have "search_and_scrape logo_env sample_assistant ''logo'' ''serpapi'' 5 ''google'' =
            Inl (ValueError no_sites_message)"
    using l _ logo_crawl_raises [OF logo_env_iter_empty]
    by (rule search_and_scrape_crawl_error) simp
  with logo_crawl_raises [OF sample_env_iter_empty] show ?thesis by (rule conjI)
qed

text \<open>
  Claim C3, amended. \<open>search_and_scrape\<close> returns the message
  \<open>No links found for '<query>'. Try again\<close> when the search gives no link. When the
  links left by the suffix test and the link filter are none, \<open>web_crawl\<close> raises
  \<open>ValueError\<close>, and an exception of \<open>web_crawl\<close> is the outcome of \<open>search_and_scrape\<close>.
\<close>

theorem no_links_message_and_crawl_error:
  "(search_method = ''serpapi'' \<and>
    snd (querySerpapi ev query max_results False search_engine) = Inr (ctx, []) \<longrightarrow>
      search_and_scrape ev self query search_method max_results search_engine =
        Inr (self, Some (''No links found for '' @ [CHR 0x27] @ query @ [CHR 0x27] @ ''. Try again''))) \<and>
   (link_filter ev (filter (\<lambda>url. \<not> endswith url excluded_link_suffixes) urls_arg)
      (iter_set ev (set ((case excluded_links_arg of None \<Rightarrow> [] | Some xs \<Rightarrow> xs) @
         excluded_links_param self))) = Inr {} \<longrightarrow>
      web_crawl ev self urls_arg excluded_links_arg = Inl (ValueError no_sites_message)) \<and>
   (search_method = ''serpapi'' \<and>
    snd (querySerpapi ev query max_results False search_engine) = Inr (ctx, links) \<and>
    links \<noteq> [] \<and> web_crawl ev self links None = Inl err \<longrightarrow>
      search_and_scrape ev self query search_method max_results search_engine = Inl err)"
proof (intro conjI impI)
  assume "search_method = ''serpapi'' \<and>
    snd (querySerpapi ev query max_results False search_engine) = Inr (ctx, [])"
  then have "search_links ev search_method query max_results search_engine = Inr []"
    by (simp add: search_links_def and_then_def)
  then show "search_and_scrape ev self query search_method max_results search_engine =
        Inr (self, Some (''No links found for '' @ [CHR 0x27] @ query @ [CHR 0x27] @ ''. Try again''))"
    by (rule search_and_scrape_no_links)
next
  assume "link_filter ev (filter (\<lambda>url. \<not> endswith url excluded_link_suffixes) urls_arg)
      (iter_set ev (set ((case excluded_links_arg of None \<Rightarrow> [] | Some xs \<Rightarrow> xs) @
         excluded_links_param self))) = Inr {}"
  then show "web_crawl ev self urls_arg excluded_links_arg = Inl (ValueError no_sites_message)"
    by (rule web_crawl_nothing_left)
next
  assume a: "search_method = ''serpapi'' \<and>
    snd (querySerpapi ev query max_results False search_engine) = Inr (ctx, links) \<and>
    links \<noteq> [] \<and> web_crawl ev self links None = Inl err"
  then have "search_links ev search_method query max_results search_engine = Inr links"
    by (simp add: search_links_def and_then_def)
  with a show "search_and_scrape ev self query search_method max_results search_engine = Inl err"
    by (simp add: search_and_scrape_crawl_error)
qed

theorem no_links_message_and_crawl_error_witness:
  "snd (querySerpapi (sample_env []) ''logo'' 5 False ''google'') = Inr (''Answer not found'', []) \<and>
   search_and_scrape (sample_env []) sample_assistant ''logo'' ''serpapi'' 5 ''google'' =
     Inr (sample_assistant, Some (''No links found for '' @ [CHR 0x27] @ ''logo'' @ [CHR 0x27] @ ''. Try again'')) \<and>
   link_filter logo_env (filter (\<lambda>url. \<not> endswith url excluded_link_suffixes)
       [''https://cdn.example.com/logo.png''])
     (iter_set logo_env (set ((case None of None \<Rightarrow> [] | Some xs \<Rightarrow> xs) @
        excluded_links_param sample_assistant))) = Inr {} \<and>
   web_crawl logo_env sample_assistant [''https://cdn.example.com/logo.png''] None =
     Inl (ValueError no_sites_message) \<and>
   snd (querySerpapi logo_env ''logo'' 5 False ''google'') =
     Inr (''[reference:1] Logo: An image'', [''https://cdn.example.com/logo.png'']) \<and>
   search_and_scrape logo_env sample_assistant ''logo'' ''serpapi'' 5 ''google'' =
     Inl (ValueError no_sites_message)"
proof -
  note inst1 = no_links_message_and_crawl_error
    [where search_method = "''serpapi''" and ev = "sample_env []" and query = "''logo''"
       and max_results = 5 and search_engine = "''google''" and ctx = "''Answer not found''"
       and self = sample_assistant]
  note inst2 = no_links_message_and_crawl_error
    [where search_method = "''serpapi''" and ev = logo_env and query = "''logo''"
       and max_results = 5 and search_engine = "''google''"
       and ctx = "''[reference:1] Logo: An image''"
       and links = "[''https://cdn.example.com/logo.png'']"
       and self = sample_assistant and urls_arg = "[''https://cdn.example.com/logo.png'']"
       and excluded_links_arg = None and err = "ValueError no_sites_message"]
  have c1: "search_and_scrape (sample_env []) sample_assistant ''logo'' ''serpapi'' 5 ''google'' =
     Inr (sample_assistant, Some (''No links found for '' @ [CHR 0x27] @ ''logo'' @ [CHR 0x27] @ ''. Try again''))"
    by (rule mp [OF conjunct1 [OF inst1]]) (simp add: failed_query)
  note f = logo_filtered_out [OF logo_env_iter_empty]
  have c2: "web_crawl logo_env sample_assistant [''https://cdn.example.com/logo.png''] None =
     Inl (ValueError no_sites_message)"
    by (rule mp [OF conjunct1 [OF conjunct2 [OF inst2]]]) (rule f)
  have c3: "search_and_scrape logo_env sample_assistant ''logo'' ''serpapi'' 5 ''google'' =
     Inl (ValueError no_sites_message)"
    by (rule mp [OF conjunct2 [OF conjunct2 [OF inst2]]]) (simp add: logo_query c2)
  from failed_query c1 f c2 logo_query c3 show ?thesis by (intro conjI)
qed

section \<open>Claims about the vector store\<close>

text \<open>
  Claim C4, as stated, fails: with a persist directory that does not exist and
  \<open>update=True\<close>, neither \<open>create_load_vector_store\<close> nor \<open>create_and_save_local\<close>
  reports an error; both create a new vector store.
\<close>

theorem update_on_absent_directory_creates:
  "\<not> path_exists (sample_env []) (persist_directory_of crawled_assistant) \<and>
   create_load_vector_store (sample_env []) crawled_assistant False True =
     Inr (crawled_assistant\<lparr>vdb_calls := [Create_vector_store [tagged_page] (Some ''NoneDirectory'')]\<rparr>) \<and>
   create_and_save_local (sample_env []) crawled_assistant None None True =
     Inr (crawled_assistant\<lparr>vdb_calls := [Create_vector_store [tagged_page] None]\<rparr>)"
proof (intro conjI)
  show "\<not> path_exists (sample_env []) (persist_directory_of crawled_assistant)"
    by (rule sample_directory_absent)
  have v: "vdb_calls crawled_assistant = []"
    by (simp add: crawled_assistant_def sample_assistant_def)
  have p: "persist_directory_of crawled_assistant = ''NoneDirectory''"
    by (simp add: persist_directory_of_def crawled_assistant_def sample_assistant_def)
  show "create_load_vector_store (sample_env []) crawled_assistant False True =
     Inr (crawled_assistant\<lparr>vdb_calls := [Create_vector_store [tagged_page] (Some ''NoneDirectory'')]\<rparr>)"
    by (simp add: create_load_absent [OF sample_directory_absent(1)] crawled_chunks and_then_def v p)
  show "create_and_save_local (sample_env []) crawled_assistant None None True =
     Inr (crawled_assistant\<lparr>vdb_calls := [Create_vector_store [tagged_page] None]\<rparr>)"
    by (simp add: create_save_absent [OF sample_directory_absent(2)] crawled_chunks and_then_def v)
qed

text \<open>
  Claim C4, amended. When the persist directory does not exist, the value of \<open>update\<close>
  is not looked at: \<open>create_load_vector_store\<close> takes its last branch and creates a
  vector store at the persist directory, \<open>create_and_save_local\<close> creates one with no
  directory, and no error is reported for the missing directory.
\<close>

theorem absent_directory_creates_whatever_update:
  "(\<not> path_exists ev (persist_directory_of self) \<longrightarrow>
      create_load_vector_store ev self force_reload update =
        and_then (chunks_with_references ev self) (\<lambda>chunks.
          Inr (self\<lparr>vdb_calls := vdb_calls self @
                 [Create_vector_store chunks (Some (persist_directory_of self))]\<rparr>))) \<and>
   (\<not> path_exists ev (persist_directory_or persist_directory_arg self) \<longrightarrow>
      create_and_save_local ev self input_directory persist_directory_arg update =
        and_then (chunks_with_references ev self) (\<lambda>chunks.
          Inr (self\<lparr>vdb_calls := vdb_calls self @ [Create_vector_store chunks None]\<rparr>)))"
  by (intro conjI impI create_load_absent create_save_absent)

theorem absent_directory_creates_whatever_update_witness:
  "\<not> path_exists (sample_env []) (persist_directory_of crawled_assistant) \<and>
   create_load_vector_store (sample_env []) crawled_assistant True True =
     Inr (crawled_assistant\<lparr>vdb_calls := [Create_vector_store [tagged_page] (Some ''NoneDirectory'')]\<rparr>) \<and>
   \<not> path_exists (sample_env []) (persist_directory_or (Some ''/tmp/db'') crawled_assistant) \<and>
   create_and_save_local (sample_env []) crawled_assistant (Some ''/tmp/old'') (Some ''/tmp/db'') True =
     Inr (crawled_assistant\<lparr>vdb_calls := [Create_vector_store [tagged_page] None]\<rparr>)"
proof -
  note inst = absent_directory_creates_whatever_update
    [where ev = "sample_env []" and self = crawled_assistant and force_reload = True
       and update = True and persist_directory_arg = "Some ''/tmp/db''"
       and input_directory = "Some ''/tmp/old''"]
  have h1: "\<not> path_exists (sample_env []) (persist_directory_of crawled_assistant)"
    by (rule sample_directory_absent)
  have h2: "\<not> path_exists (sample_env []) (persist_directory_or (Some ''/tmp/db'') crawled_assistant)"
    by (simp add: sample_env_def existing_paths_def)
  have v: "vdb_calls crawled_assistant = []"
    by (simp add: crawled_assistant_def sample_assistant_def)
  have p: "persist_directory_of crawled_assistant = ''NoneDirectory''"
    by (simp add: persist_directory_of_def crawled_assistant_def sample_assistant_def)
  from mp [OF conjunct1 [OF inst] h1]
  have c1: "create_load_vector_store (sample_env []) crawled_assistant True True =
     Inr (crawled_assistant\<lparr>vdb_calls := [Create_vector_store [tagged_page] (Some ''NoneDirectory'')]\<rparr>)"
    by (simp add: crawled_chunks and_then_def v p)
  from mp [OF conjunct2 [OF inst] h2]
  have c2: "create_and_save_local (sample_env []) crawled_assistant (Some ''/tmp/old'') (Some ''/tmp/db'') True =
     Inr (crawled_assistant\<lparr>vdb_calls := [Create_vector_store [tagged_page] None]\<rparr>)"
    by (simp add: crawled_chunks and_then_def v)
  from h1 c1 h2 c2 show ?thesis by (intro conjI)
qed

section \<open>Claims about \<open>get_text_chunks_with_references\<close>\<close>

text \<open>
  Claim C2. A chunk whose metadata records a source that is in the URL list is meant to
  get \<open>[reference:n] \<close> before its text, \<open>n\<close> being the 1-based position of the source.
  The loop guards that branch with \<open>'metadata' in chunk\<close>, which is false for every
  \<open>Document\<close>, so every chunk gets \<open>[reference:unknown] \<close>. With the URLs
  \<open>https://a.example\<close> and \<open>https://b.example\<close>, the dictionary of the sources gives
  \<open>https://b.example\<close> the number 2, and the chunk \<open>B\<close> whose source is
  \<open>https://b.example\<close> comes back as \<open>[reference:unknown] B\<close>, like the chunk without
  a source and the chunk whose source is not in the list. No chunk is dropped.
\<close>

theorem chunk_of_listed_source_gets_unknown:
  "urls two_site_assistant = Some [''https://a.example'', ''https://b.example''] \<and>
   number_sources 0 [''https://a.example'', ''https://b.example''] Map.empty ''https://b.example'' =
     Some 2 \<and>
   get_text_chunks_with_references (sample_env []) two_site_assistant (Some three_documents) 1200 240 =
     Inr [\<lparr>page_content = ''[reference:unknown] B'' @ [CHR 0x0A, CHR 0x0A],
           metadata = [''source'' \<mapsto> ''https://b.example'']\<rparr>,
          \<lparr>page_content = ''[reference:unknown] N'' @ [CHR 0x0A, CHR 0x0A],
           metadata = Map.empty\<rparr>,
          \<lparr>page_content = ''[reference:unknown] C'' @ [CHR 0x0A, CHR 0x0A],
           metadata = [''source'' \<mapsto> ''https://c.example'']\<rparr>]"
  by (simp add: get_text_chunks_with_references_def sample_env_def two_site_assistant_def
      sample_assistant_def whole_documents_def keep_documents_def and_then_def
      three_documents_def add_reference_unknown)

text \<open>
  The same holds for every splitter, URL list and list of documents: when the function
  returns, its result is the list of the splitter's chunks, each with
  \<open>[reference:unknown] \<close> before its text and two newlines after it.
\<close>

lemma every_chunk_gets_unknown:
  assumes "text_splitter ev chunk_size chunk_overlap = Inr split_documents"
    and "urls self = Some us" and "split_documents docs = Inr chunks"
  shows "get_text_chunks_with_references ev self (Some docs) chunk_size chunk_overlap =
           Inr (map (\<lambda>chunk. chunk\<lparr>page_content :=
                  ''[reference:unknown] '' @ page_content chunk @ [CHR 0x0A, CHR 0x0A]\<rparr>) chunks)"
proof -
  have fn: "add_reference sources = (\<lambda>chunk. chunk\<lparr>page_content :=
                   ''[reference:unknown] '' @ page_content chunk @ [CHR 0x0A, CHR 0x0A]\<rparr>)"
    for sources
    by (rule ext) (rule add_reference_unknown)
  from assms
  have "get_text_chunks_with_references ev self (Some docs) chunk_size chunk_overlap =
          Inr (map (add_reference (number_sources 0 us Map.empty)) chunks)"
    by (simp add: get_text_chunks_with_references_def and_then_def)
  then show ?thesis by (simp only: fn)
qed

text \<open>
  The constructor of the splitter runs before anything else: an overlap larger than the
  chunk size raises before the URL list is looked at.
\<close>

lemma splitter_error_comes_first:
  "get_text_chunks_with_references (sample_env []) sample_assistant None 100 200 =
     Inl (ValueError ''Got a larger chunk overlap (200) than chunk size (100), should be smaller.'')"
  by (simp add: get_text_chunks_with_references_def sample_env_def whole_documents_def
      and_then_def str_nat.simps digit_char_def)

section \<open>Claims about \<open>parse_retrieval_output\<close>\<close>

text \<open>
  Claim C1 on the code, at the example of the claim: the URLs are a, b, c and the
  retrieval step used b and c, iterated in this order. An answer that cites a makes
  \<open>parse_retrieval_output\<close> raise \<open>KeyError\<close>, where the claim says that the citation is
  left as it is; an answer that cites b and c only is renumbered as the claim says.
\<close>

theorem remap_raises_for_unused_citation:
  "parse_retrieval_output bc_env abc_assistant
     ''A [reference:1], B [reference:2], C [reference:3]'' retrieved_b_c =
     Inl (KeyError ''https://a.example'') \<and>
   parse_retrieval_output bc_env abc_assistant
     ''B [reference:2], C [reference:3], B [reference:2]'' retrieved_b_c =
     Inr ''B [<sup>1</sup>](https://b.example), C [<sup>2</sup>](https://c.example), B [<sup>1</sup>](https://b.example)''"
  by code_simp

text \<open>
  The test before the lookup is \<open>link in parsed_answer\<close>, a substring test on the URL:
  an unused URL that is a part of a cited one raises as well.
\<close>

lemma remap_raises_for_url_inside_cited_url:
  "parse_retrieval_output ab_env prefix_urls_assistant ''B [reference:2]'' retrieved_ab =
     Inl (KeyError ''https://x.example/a'')"
  by code_simp

text \<open>The numbers follow the iteration order of the set of used sources.\<close>

lemma remap_follows_set_iteration_order:
  "parse_retrieval_output cb_env abc_assistant
     ''B [reference:2], C [reference:3], B [reference:2]'' retrieved_b_c =
     Inr ''B [<sup>2</sup>](https://b.example), C [<sup>1</sup>](https://c.example), B [<sup>2</sup>](https://b.example)''"
  by code_simp

end
